theory Spec2Isabelle
  imports Complex_Main "HOL-Library.Sublist"
begin

chapter \<open>The retrieval-and-grounding core of the policy question answering bot\<close>

section \<open>Python strings\<close>

text \<open>
  A Python \<open>str\<close> is a sequence of code points and is modelled as \<^typ>\<open>string\<close>, one
  \<^typ>\<open>char\<close> per code point. A \<^typ>\<open>char\<close> has eight bits, so the model covers the
  texts whose code points lie below 256, and Python's character tables (white space,
  case, digits, word characters) are written out on that range. \<open>len\<close> is
  \<^const>\<open>length\<close>, \<open>s[:n]\<close> is \<^const>\<open>take\<close>, \<open>s.startswith(p)\<close> is \<^const>\<open>prefix\<close>.
\<close>

definition is_space :: "char \<Rightarrow> bool" where
  \<comment> \<open>\<open>str.isspace\<close>, also the class \<open>\s\<close> of \<open>re\<close> on \<open>str\<close> patterns\<close>
  "is_space c =
     (let n = (of_char c :: nat)
      in (9 \<le> n \<and> n \<le> 13) \<or> (28 \<le> n \<and> n \<le> 32) \<or> n = 133 \<or> n = 160)"

definition is_digit :: "char \<Rightarrow> bool" where
  \<comment> \<open>the class \<open>\d\<close>: the decimal digits\<close>
  "is_digit c = (let n = (of_char c :: nat) in 48 \<le> n \<and> n \<le> 57)"

definition is_ascii_upper :: "char \<Rightarrow> bool" where
  \<comment> \<open>the class \<open>[A-Z]\<close>\<close>
  "is_ascii_upper c = (let n = (of_char c :: nat) in 65 \<le> n \<and> n \<le> 90)"

definition is_upper_char :: "char \<Rightarrow> bool" where
  "is_upper_char c =
     (let n = (of_char c :: nat)
      in (65 \<le> n \<and> n \<le> 90) \<or> (192 \<le> n \<and> n \<le> 222 \<and> n \<noteq> 215))"

definition is_lower_char :: "char \<Rightarrow> bool" where
  "is_lower_char c =
     (let n = (of_char c :: nat)
      in (97 \<le> n \<and> n \<le> 122) \<or> (223 \<le> n \<and> n \<le> 255 \<and> n \<noteq> 247)
         \<or> n = 170 \<or> n = 181 \<or> n = 186)"

definition is_word_char :: "char \<Rightarrow> bool" where
  \<comment> \<open>the class \<open>\w\<close>: alphanumeric code points and the underscore\<close>
  "is_word_char c =
     (let n = (of_char c :: nat)
      in is_digit c \<or> is_upper_char c \<or> is_lower_char c \<or> n = 95
         \<or> n = 178 \<or> n = 179 \<or> n = 185 \<or> n = 188 \<or> n = 189 \<or> n = 190)"

definition lower_char :: "char \<Rightarrow> char" where
  "lower_char c = (if is_upper_char c then char_of ((of_char c :: nat) + 32) else c)"

definition upper_char :: "char \<Rightarrow> char" where
  \<comment> \<open>exact on ASCII and on the accented letters whose capital lies below 256\<close>
  "upper_char c =
     (let n = (of_char c :: nat)
      in if (97 \<le> n \<and> n \<le> 122) \<or> (224 \<le> n \<and> n \<le> 254 \<and> n \<noteq> 247)
         then char_of (n - 32) else c)"

definition lower :: "string \<Rightarrow> string" where
  \<comment> \<open>\<open>str.lower\<close>\<close>
  "lower s = map lower_char s"

fun title_from :: "bool \<Rightarrow> string \<Rightarrow> string" where
  "title_from prev_cased [] = []"
| "title_from prev_cased (c # cs) =
     (if is_upper_char c \<or> is_lower_char c
      then (if prev_cased then lower_char c else upper_char c) # title_from True cs
      else c # title_from False cs)"

definition title :: "string \<Rightarrow> string" where
  \<comment> \<open>\<open>str.title\<close>; the source applies it to the ASCII keywords only\<close>
  "title s = title_from False s"

definition lstrip :: "string \<Rightarrow> string" where
  "lstrip s = dropWhile is_space s"

definition rstrip :: "string \<Rightarrow> string" where
  "rstrip s = rev (dropWhile is_space (rev s))"

definition strip :: "string \<Rightarrow> string" where
  \<comment> \<open>\<open>str.strip()\<close>\<close>
  "strip s = rstrip (lstrip s)"

definition rstrip_chars :: "string \<Rightarrow> string \<Rightarrow> string" where
  \<comment> \<open>\<open>s.rstrip(cs)\<close>\<close>
  "rstrip_chars cs s = rev (dropWhile (\<lambda>c. c \<in> set cs) (rev s))"

definition strip_chars :: "string \<Rightarrow> string \<Rightarrow> string" where
  \<comment> \<open>\<open>s.strip(cs)\<close>\<close>
  "strip_chars cs s = rstrip_chars cs (dropWhile (\<lambda>c. c \<in> set cs) s)"

fun split_on :: "char \<Rightarrow> string \<Rightarrow> string list" where
  \<comment> \<open>\<open>s.split(sep)\<close> for a separator of one character\<close>
  "split_on sep [] = [[]]"
| "split_on sep (c # cs) =
     (if c = sep then [] # split_on sep cs
      else (case split_on sep cs of w # ws \<Rightarrow> (c # w) # ws | [] \<Rightarrow> [[c]]))"

fun split_ws_from :: "string \<Rightarrow> string \<Rightarrow> string list" where
  "split_ws_from cur [] = (if cur = [] then [] else [cur])"
| "split_ws_from cur (c # cs) =
     (if is_space c
      then (if cur = [] then split_ws_from [] cs else cur # split_ws_from [] cs)
      else split_ws_from (cur @ [c]) cs)"

definition split_ws :: "string \<Rightarrow> string list" where
  \<comment> \<open>\<open>s.split()\<close>: the maximal runs of characters that are not white space\<close>
  "split_ws s = split_ws_from [] s"

fun join :: "string \<Rightarrow> string list \<Rightarrow> string" where
  \<comment> \<open>\<open>sep.join(parts)\<close>\<close>
  "join sep [] = []"
| "join sep [x] = x"
| "join sep (x # y # ys) = x @ sep @ join sep (y # ys)"

fun contains :: "string \<Rightarrow> string \<Rightarrow> bool" where
  \<comment> \<open>\<open>contains s t\<close> is Python's \<open>t in s\<close> on strings\<close>
  "contains [] t = (t = [])"
| "contains (c # cs) t = (prefix t (c # cs) \<or> contains cs t)"

definition digit_char :: "nat \<Rightarrow> char" where
  "digit_char d = ''0123456789'' ! d"

fun digits_of :: "nat \<Rightarrow> string" where
  "digits_of n = (if n < 10 then [digit_char n] else digits_of (n div 10) @ [digit_char (n mod 10)])"

declare digits_of.simps [simp del]

definition str_int :: "int \<Rightarrow> string" where
  \<comment> \<open>\<open>str(i)\<close> of an integer\<close>
  "str_int i = (if i < 0 then CHR ''-'' # digits_of (nat (- i)) else digits_of (nat i))"

section \<open>Chunks and their citation string (\<open>core/chunking.py\<close>)\<close>

record chunk =
  "text" :: string
  doc_name :: string
  page :: int
  "section" :: string
  clause_number :: string
  heading_path :: string
  cross_references :: "string list"
  chunk_id :: int

definition section_sign :: char where
  \<comment> \<open>the paragraph sign U+00A7\<close>
  "section_sign = CHR 0xA7"

definition citation_parts :: "chunk \<Rightarrow> string list" where
  "citation_parts c =
     (let parts = [doc_name c];
          parts = (if clause_number c \<noteq> [] then parts @ [section_sign # clause_number c]
                   else parts);
          parts = (if section c \<noteq> [] then parts @ [''('' @ section c @ '')'']
                   else if heading_path c \<noteq> []
                     then parts @ [[CHR 0x22] @ heading_path c @ [CHR 0x22]]
                   else parts)
      in parts @ [''p.'' @ str_int (page c)])"

definition citation_string :: "chunk \<Rightarrow> string" where
  "citation_string c = join '' '' (citation_parts c)"

section \<open>Heading and section detection (\<open>core/chunking.py\<close>)\<close>

text \<open>
  The regular expressions of the module are written as matchers. Greedy repetition
  with backtracking finds the same match as the scanners below: after a maximal run
  \<open>\d+(?:\.\d+)*\<close> every shorter run is followed by a digit or by a dot and a digit,
  where the patterns ask for a dot and white space or for nothing at all.
\<close>

fun match_ci :: "string \<Rightarrow> string \<Rightarrow> string option" where
  \<comment> \<open>a literal under \<open>re.IGNORECASE\<close> at the start of the text; the rest of the text\<close>
  "match_ci [] s = Some s"
| "match_ci (p # ps) [] = None"
| "match_ci (p # ps) (c # cs) = (if lower_char c = lower_char p then match_ci ps cs else None)"

definition match_spaces :: "string \<Rightarrow> string option" where
  \<comment> \<open>\<open>\s+\<close> at the start of the text\<close>
  "match_spaces s =
     (case s of [] \<Rightarrow> None
      | c # cs \<Rightarrow> if is_space c then Some (dropWhile is_space cs) else None)"

fun scan_clause :: "string \<Rightarrow> string \<Rightarrow> string \<times> string" where
  \<comment> \<open>the rest of \<open>\d+(?:\.\d+)*\<close> once inside a run of digits: the label and what follows\<close>
  "scan_clause acc [] = (acc, [])"
| "scan_clause acc (c # cs) =
     (if is_digit c then scan_clause (acc @ [c]) cs
      else if c = CHR ''.'' \<and> cs \<noteq> [] \<and> is_digit (hd cs) then scan_clause (acc @ [c]) cs
      else (acc, c # cs))"

definition match_clause :: "string \<Rightarrow> (string \<times> string) option" where
  \<comment> \<open>\<open>(\d+(?:\.\d+)*)\<close> at the start of the text\<close>
  "match_clause s =
     (case s of [] \<Rightarrow> None
      | c # cs \<Rightarrow> if is_digit c then Some (scan_clause [] s) else None)"

definition numbered_core :: "string \<Rightarrow> string option" where
  \<comment> \<open>\<open>(\d+(?:\.\d+)*)\.\s+(.*)\<close>: group 1\<close>
  "numbered_core s =
     (case match_clause s of None \<Rightarrow> None
      | Some (label, rest) \<Rightarrow>
          (case rest of
             d # w # _ \<Rightarrow> if d = CHR ''.'' \<and> is_space w then Some label else None
           | _ \<Rightarrow> None))"

definition NUMBERED_SECTION_RE :: "string \<Rightarrow> string option" where
  \<comment> \<open>\<open>^(?:Section\s+)?(\d+(?:\.\d+)*)\.\s+(.*)\<close>, ignoring case: group 1 of \<open>match\<close>\<close>
  "NUMBERED_SECTION_RE s =
     (case (case match_ci ''Section'' s of None \<Rightarrow> None
            | Some r \<Rightarrow> (case match_spaces r of None \<Rightarrow> None | Some r' \<Rightarrow> numbered_core r'))
      of Some label \<Rightarrow> Some label
       | None \<Rightarrow> numbered_core s)"

definition ALLCAPS_HEADING_RE :: "string \<Rightarrow> bool" where
  \<comment> \<open>\<open>^([A-Z][A-Z\s\-&/]{2,})$\<close>: whether \<open>match\<close> succeeds\<close>
  "ALLCAPS_HEADING_RE s =
     (case s of [] \<Rightarrow> False
      | c # cs \<Rightarrow> is_ascii_upper c \<and> 2 \<le> length cs
          \<and> list_all (\<lambda>x. is_ascii_upper x \<or> is_space x \<or> x \<in> set ''-&/'') cs)"

definition SECTION_KEYWORDS :: "string list" where
  \<comment> \<open>a Python set, here in the order of the source text\<close>
  "SECTION_KEYWORDS =
     [''definitions'', ''exclusions'', ''coverage'', ''conditions'', ''endorsements'',
      ''general conditions'', ''special conditions'', ''claims'', ''how to claim'',
      ''what is covered'', ''what is not covered'', ''limits'', ''excess'',
      ''policy schedule'', ''insuring clause'', ''preamble'', ''declarations'',
      ''optional covers'', ''additional benefits'', ''extensions'']"

definition detect_section_label :: "string \<Rightarrow> string option" where
  "detect_section_label line =
     (let stripped = strip line
      in if stripped = [] then None
         else if NUMBERED_SECTION_RE stripped \<noteq> None then Some (take 120 stripped)
         else if ALLCAPS_HEADING_RE stripped \<and> 3 \<le> length stripped then Some (take 120 stripped)
         else if rstrip_chars '':'' (lower stripped) \<in> set SECTION_KEYWORDS
           then Some (take 120 stripped)
         else None)"

definition match_alt :: "(string \<Rightarrow> string option) list \<Rightarrow> string \<Rightarrow> string option" where
  \<comment> \<open>an alternation: the first alternative that matches\<close>
  "match_alt ms s = (case List.map_filter (\<lambda>m. m s) ms of [] \<Rightarrow> None | r # _ \<Rightarrow> Some r)"

definition match_seq :: "(string \<Rightarrow> string option) list \<Rightarrow> string \<Rightarrow> string option" where
  \<comment> \<open>a sequence of matchers, each on the rest the one before it left\<close>
  "match_seq ms s = fold (\<lambda>m r. case r of None \<Rightarrow> None | Some t \<Rightarrow> m t) ms (Some s)"

definition cross_ref_at :: "string \<Rightarrow> (string \<times> string) option" where
  \<comment> \<open>\<open>CROSS_REF_RE\<close> at the start of the text: group 1 and the text after the match\<close>
  "cross_ref_at s =
     (case match_seq
             [match_alt
                [match_ci ''see'',
                 match_seq [match_ci ''refer'', match_spaces, match_ci ''to''],
                 match_seq [match_ci ''as'', match_spaces, match_ci ''defined'', match_spaces,
                            match_ci ''in''],
                 match_ci ''under''],
              match_spaces,
              match_alt [match_ci ''Section'', match_ci ''Clause'', match_ci ''Part''],
              match_spaces] s
      of None \<Rightarrow> None
       | Some r \<Rightarrow> match_clause r)"

fun find_from :: "nat \<Rightarrow> string \<Rightarrow> string list" where
  \<comment> \<open>\<open>finditer\<close>: \<open>skip\<close> counts the characters left of the match found last\<close>
  "find_from skip [] = []"
| "find_from skip (c # cs) =
     (if 0 < skip then find_from (skip - 1) cs
      else (case cross_ref_at (c # cs) of
              None \<Rightarrow> find_from 0 cs
            | Some (label, rest) \<Rightarrow> label # find_from (length cs - length rest) cs))"

definition find_cross_references :: "string \<Rightarrow> string list" where
  "find_cross_references s = find_from 0 s"

definition estimate_tokens :: "string \<Rightarrow> int" where
  "estimate_tokens s = int (length s) div 4"

record sec =
  heading :: string
  clause :: string
  lines :: "string list"

fun split_lines :: "string list \<Rightarrow> sec list \<Rightarrow> sec \<Rightarrow> sec list" where
  \<comment> \<open>the loop of \<open>_split_into_sections\<close> over the lines, and what follows it\<close>
  "split_lines [] sections current_section =
     (if lines current_section \<noteq> [] then sections @ [current_section] else sections)"
| "split_lines (line # rest) sections current_section =
     (case detect_section_label line of
        Some h \<Rightarrow>
          (let sections = (if lines current_section \<noteq> [] then sections @ [current_section]
                           else sections);
               cl = (case NUMBERED_SECTION_RE (strip line) of Some l \<Rightarrow> l | None \<Rightarrow> [])
           in split_lines rest sections \<lparr>heading = h, clause = cl, lines = [line]\<rparr>)
      | None \<Rightarrow>
          split_lines rest sections
            (current_section\<lparr>lines := lines current_section @ [line]\<rparr>))"

definition split_into_sections :: "string \<Rightarrow> sec list" where
  "split_into_sections s =
     split_lines (split_on (CHR 0x0A) s) [] \<lparr>heading = [], clause = [], lines = []\<rparr>"

section \<open>Sub-chunking and \<open>chunk_pages\<close> (\<open>core/chunking.py\<close>)\<close>

function split_sentences_from :: "string \<Rightarrow> string \<Rightarrow> string list" where
  \<comment> \<open>\<open>cur\<close> is the text read since the last separator; a separator is a maximal run
      of white space that follows one of \<open>.!?\<close>\<close>
  "split_sentences_from cur [] = [cur]"
| "split_sentences_from cur (c # cs) =
     (if is_space c \<and> cur \<noteq> [] \<and> last cur \<in> set ''.!?''
      then cur # split_sentences_from [] (dropWhile is_space cs)
      else split_sentences_from (cur @ [c]) cs)"
  by pat_completeness auto
termination
  by (relation "measure (\<lambda>(cur, s). length s)") (auto simp: less_Suc_eq_le length_dropWhile_le)

definition split_sentences :: "string \<Rightarrow> string list" where
  \<comment> \<open>\<open>re.split(r"(?<=[.!?])\s+", text)\<close>\<close>
  "split_sentences s = split_sentences_from [] s"

fun overlap_loop :: "int \<Rightarrow> string list \<Rightarrow> int \<Rightarrow> string list \<Rightarrow> string list" where
  \<comment> \<open>the loop over \<open>reversed(current_chunk)\<close> that collects the overlap\<close>
  "overlap_loop chunk_overlap [] overlap_tokens overlap_sentences = overlap_sentences"
| "overlap_loop chunk_overlap (s # rest) overlap_tokens overlap_sentences =
     (let overlap_tokens = overlap_tokens + estimate_tokens s
      in if chunk_overlap \<le> overlap_tokens then overlap_sentences
         else overlap_loop chunk_overlap rest overlap_tokens (s # overlap_sentences))"

fun sub_chunk_loop ::
  "int \<Rightarrow> int \<Rightarrow> int \<Rightarrow> string list \<Rightarrow> string list \<Rightarrow> string list \<Rightarrow> int
     \<Rightarrow> string list \<times> string list" where
  \<comment> \<open>the loop over the sentences: the chunks flushed and the chunk being filled\<close>
  "sub_chunk_loop chunk_size chunk_overlap min_chunk_size [] chunks current_chunk current_tokens =
     (chunks, current_chunk)"
| "sub_chunk_loop chunk_size chunk_overlap min_chunk_size (sentence # rest) chunks current_chunk
       current_tokens =
     (let sent_tokens = estimate_tokens sentence
      in if chunk_size < current_tokens + sent_tokens \<and> current_chunk \<noteq> []
         then
           (let chunk_text = join '' '' current_chunk;
                chunks = (if min_chunk_size \<le> estimate_tokens chunk_text
                          then chunks @ [chunk_text] else chunks);
                current_chunk = overlap_loop chunk_overlap (rev current_chunk) 0 [];
                current_tokens = sum_list (map estimate_tokens current_chunk)
            in sub_chunk_loop chunk_size chunk_overlap min_chunk_size rest chunks
                 (current_chunk @ [sentence]) (current_tokens + sent_tokens))
         else sub_chunk_loop chunk_size chunk_overlap min_chunk_size rest chunks
                (current_chunk @ [sentence]) (current_tokens + sent_tokens))"

definition sub_chunk_text :: "string \<Rightarrow> int \<Rightarrow> int \<Rightarrow> int \<Rightarrow> string list" where
  "sub_chunk_text s chunk_size chunk_overlap min_chunk_size =
     (if estimate_tokens s \<le> chunk_size
      then (if min_chunk_size \<le> estimate_tokens s then [s]
            else if strip s \<noteq> [] then [s] else [])
      else
        (let (chunks, current_chunk) =
               sub_chunk_loop chunk_size chunk_overlap min_chunk_size (split_sentences s) [] [] 0
         in if current_chunk \<noteq> []
            then
              (let chunk_text = join '' '' current_chunk
               in if min_chunk_size \<le> estimate_tokens chunk_text \<or> chunks = []
                  then chunks @ [chunk_text]
                  else if chunks \<noteq> []
                    then butlast chunks @ [last chunks @ '' '' @ chunk_text]
                  else chunks)
            else chunks))"

record document_page =
  page_doc_name :: string
  page_num :: int
  page_text :: string
  headings :: "string list"

text \<open>
  The fields \<open>doc_name\<close> and \<open>text\<close> of \<open>DocumentPage\<close> are \<^const>\<open>page_doc_name\<close> and
  \<^const>\<open>page_text\<close> here, since a chunk has fields of the same names.
\<close>

function trim_stack :: "nat \<Rightarrow> string list \<Rightarrow> string list" where
  \<comment> \<open>\<open>while len(stack) >= depth: stack.pop() if stack else None\<close>; the depth is at
      least 1 at the only call, where the loop ends\<close>
  "trim_stack depth stack =
     (if depth \<le> length stack \<and> stack \<noteq> [] then trim_stack depth (butlast stack) else stack)"
  by pat_completeness auto
termination
  by (relation "measure (\<lambda>(depth, stack). length stack)") auto

declare trim_stack.simps [simp del]

definition section_label_of :: "string list \<Rightarrow> string \<Rightarrow> string" where
  \<comment> \<open>\<open>kws\<close> is \<open>SECTION_KEYWORDS\<close> in the order in which the set is iterated\<close>
  "section_label_of kws h =
     (let section_label =
            (case filter (\<lambda>kw. h \<noteq> [] \<and> contains (lower h) kw) kws of
               [] \<Rightarrow> []
             | kw # _ \<Rightarrow> title kw)
      in if section_label = [] \<and> h \<noteq> [] then take 60 h else section_label)"

fun emit_chunks ::
  "string \<Rightarrow> int \<Rightarrow> string \<Rightarrow> string \<Rightarrow> string \<Rightarrow> string list \<Rightarrow> string list
     \<Rightarrow> chunk list \<times> int \<Rightarrow> chunk list \<times> int" where
  \<comment> \<open>the loop over the sub-chunks of one section\<close>
  "emit_chunks dn pg section_label cl hp cross_refs [] (all_chunks, cid) = (all_chunks, cid)"
| "emit_chunks dn pg section_label cl hp cross_refs (sub_text # rest) (all_chunks, cid) =
     emit_chunks dn pg section_label cl hp cross_refs rest
       (all_chunks @
          [\<lparr>text = sub_text, doc_name = dn, page = pg, section = section_label,
            clause_number = cl, heading_path = hp, cross_references = cross_refs,
            chunk_id = cid\<rparr>],
        cid + 1)"

type_synonym chunker_state = "chunk list \<times> int \<times> (string \<rightharpoonup> string list)"

definition stack_of :: "(string \<rightharpoonup> string list) \<Rightarrow> string \<Rightarrow> string list" where
  \<comment> \<open>\<open>heading_stack[doc_name]\<close>; the key is set before the sections are read\<close>
  "stack_of heading_stack dn = (case heading_stack dn of Some st \<Rightarrow> st | None \<Rightarrow> [])"

definition chunk_section ::
  "string list \<Rightarrow> int \<Rightarrow> int \<Rightarrow> int \<Rightarrow> document_page \<Rightarrow> chunker_state \<Rightarrow> sec
     \<Rightarrow> chunker_state" where
  \<comment> \<open>the body of the loop over the sections of a page\<close>
  "chunk_section kws chunk_size chunk_overlap min_chunk_size pg state sc =
     (case state of (all_chunks, cid, heading_stack) \<Rightarrow>
        (let dn = page_doc_name pg;
             section_text = strip (join [CHR 0x0A] (lines sc))
         in if section_text = [] then state
            else
              (let heading_stack =
                     (if heading sc \<noteq> []
                      then
                        (let depth = (if clause sc \<noteq> []
                                      then length (split_on (CHR ''.'') (clause sc)) else 1);
                             stack = trim_stack depth (stack_of heading_stack dn)
                         in heading_stack(dn \<mapsto> stack @ [heading sc]))
                      else heading_stack);
                   stack = stack_of heading_stack dn;
                   hp = (if stack \<noteq> [] then join '' > '' stack else []);
                   section_label = section_label_of kws (heading sc);
                   cross_refs = find_cross_references section_text;
                   sub_chunks = sub_chunk_text section_text chunk_size chunk_overlap
                                  min_chunk_size;
                   (all_chunks, cid) =
                     emit_chunks dn (page_num pg) section_label (clause sc) hp cross_refs
                       sub_chunks (all_chunks, cid)
               in (all_chunks, cid, heading_stack))))"

definition chunk_page ::
  "string list \<Rightarrow> int \<Rightarrow> int \<Rightarrow> int \<Rightarrow> chunker_state \<Rightarrow> document_page \<Rightarrow> chunker_state" where
  \<comment> \<open>the body of the loop over the pages\<close>
  "chunk_page kws chunk_size chunk_overlap min_chunk_size state pg =
     (case state of (all_chunks, cid, heading_stack) \<Rightarrow>
        (let dn = page_doc_name pg;
             heading_stack = (if heading_stack dn = None then heading_stack(dn \<mapsto> [])
                              else heading_stack)
         in foldl (\<lambda>st sc. chunk_section kws chunk_size chunk_overlap min_chunk_size pg st sc)
              (all_chunks, cid, heading_stack) (split_into_sections (page_text pg))))"

definition chunk_pages ::
  "string list \<Rightarrow> document_page list \<Rightarrow> int \<Rightarrow> int \<Rightarrow> int \<Rightarrow> chunk list" where
  \<comment> \<open>the message printed at the end is left out\<close>
  "chunk_pages kws pages chunk_size chunk_overlap min_chunk_size =
     fst (foldl (chunk_page kws chunk_size chunk_overlap min_chunk_size) ([], 0, Map.empty) pages)"

section \<open>The vector store (\<open>core/vectorstore.py\<close>)\<close>

text \<open>
  The embedding backend and the FAISS library are outside the repository. A vector is a
  list of numbers of some type \<^typ>\<open>'a\<close>, the array that \<open>encode\<close> returns is a list of
  vectors, and the flat index that \<open>IndexFlatIP\<close> and \<open>add\<close> build holds these vectors
  in their order. \<open>encode\<close> and the search of the index are parameters of the functions
  that call them. A method returns the store as it leaves it and the lines it prints.
\<close>

datatype error =
    RuntimeError string
  | ValueError string
  | NotImplementedError string
  | AttributeError string
  | EmptyCorpusError  \<comment> \<open>named by the design; no statement of the source raises it\<close>

record meta_entry =
  m_text :: "string option"
  m_doc_name :: "string option"
  m_page :: "int option"
  m_section :: "string option"
  m_clause_number :: "string option"
  m_heading_path :: "string option"
  m_cross_references :: "string list option"
  m_chunk_id :: "int option"

text \<open>
  A \<^typ>\<open>meta_entry\<close> is an object of the JSON array of the metadata file: each of the
  eight keys is absent (\<open>None\<close>) or present with a value of the type that \<open>save\<close> writes
  for it. Metadata of another shape, a value of another JSON type or a document that is
  not an array of objects, is not in the type: the record of a chunk could not hold what
  Python would load from it.
\<close>

datatype 'a faiss_content =
    FaissIndex "'a list list"  \<comment> \<open>what \<open>faiss.write_index\<close> writes and \<open>read_index\<close> reads\<close>
  | BadFaiss string  \<comment> \<open>a file on which \<open>read_index\<close> raises; the text of the exception\<close>

datatype json_content =
    JsonMeta "meta_entry list"  \<comment> \<open>what \<open>json.dump\<close> writes and \<open>json.load\<close> reads\<close>
  | BadJson string  \<comment> \<open>a file on which \<open>json.load\<close> raises; the text of the exception\<close>

record 'a filesystem =
  faiss_files :: "string \<rightharpoonup> 'a faiss_content"
  json_files :: "string \<rightharpoonup> json_content"

text \<open>
  The file system, as far as the store reads and writes it: the index files and the
  metadata files, each by its path. A path that has no file maps to \<open>None\<close>.
\<close>

definition empty_fs :: "'a filesystem" where
  "empty_fs = \<lparr>faiss_files = Map.empty, json_files = Map.empty\<rparr>"

record 'a vector_store =
  db_dir :: string
  vs_index :: "'a list list option"
  vs_chunks :: "chunk list"
  vs_is_loaded :: bool

text \<open>
  The fields \<^const>\<open>vs_index\<close>, \<^const>\<open>vs_chunks\<close> and \<^const>\<open>vs_is_loaded\<close> are \<open>_index\<close>,
  \<open>_chunks\<close> and \<open>_is_loaded\<close>; a directory is the string of its path.
\<close>

definition VectorStore :: "string \<Rightarrow> 'a vector_store" where
  \<comment> \<open>the constructor\<close>
  "VectorStore d = \<lparr>db_dir = d, vs_index = None, vs_chunks = [], vs_is_loaded = False\<rparr>"

definition index_path :: "'a vector_store \<Rightarrow> string" where
  "index_path st = db_dir st @ ''/index.faiss''"

definition meta_path :: "'a vector_store \<Rightarrow> string" where
  "meta_path st = db_dir st @ ''/chunks.json''"

definition build_index ::
  "(string list \<Rightarrow> int \<Rightarrow> 'a list list) \<Rightarrow> 'a vector_store \<Rightarrow> chunk list \<Rightarrow> int
     \<Rightarrow> error + ('a vector_store \<times> string list)" where
  "build_index encode st chunks batch_size =
     (if chunks = [] then Inr (st, [''[WARNING] No chunks to index.''])
      else
        (let texts = map text chunks;
             out1 = ''  Embedding '' @ str_int (int (length texts)) @ '' chunks (batch_size=''
                      @ str_int batch_size @ '')...'';
             embeddings = encode texts batch_size;
             dim = (case embeddings of [] \<Rightarrow> 0 | v # _ \<Rightarrow> int (length v));
             out2 = ''  FAISS index built: '' @ str_int (int (length embeddings))
                      @ '' vectors, dim='' @ str_int dim
         in Inr (st\<lparr>vs_chunks := chunks, vs_index := Some embeddings, vs_is_loaded := True\<rparr>,
                 [out1, out2])))"

definition meta_of_chunk :: "chunk \<Rightarrow> meta_entry" where
  \<comment> \<open>the dictionary that \<open>save\<close> writes for a chunk\<close>
  "meta_of_chunk c =
     \<lparr>m_text = Some (text c),
      m_doc_name = Some (doc_name c),
      m_page = Some (page c),
      m_section = Some (section c),
      m_clause_number = Some (clause_number c),
      m_heading_path = Some (heading_path c),
      m_cross_references = Some (cross_references c),
      m_chunk_id = Some (chunk_id c)\<rparr>"

definition save ::
  "'a vector_store \<Rightarrow> 'a filesystem \<Rightarrow> error + ('a filesystem \<times> string list)" where
  \<comment> \<open>\<open>mkdir\<close> of the directory writes no file\<close>
  "save st fs =
     (case vs_index st of
        None \<Rightarrow> Inr (fs, [''[WARNING] No index to save.''])
      | Some idx \<Rightarrow>
          (let fs = fs\<lparr>faiss_files := (faiss_files fs)(index_path st \<mapsto> FaissIndex idx)\<rparr>;
               meta = map meta_of_chunk (vs_chunks st);
               fs = fs\<lparr>json_files := (json_files fs)(meta_path st \<mapsto> JsonMeta meta)\<rparr>
           in Inr (fs, [''  Index saved to '' @ db_dir st])))"

definition key_error :: "string \<Rightarrow> string" where
  \<comment> \<open>\<open>str(KeyError(k))\<close>: the key between single quotes\<close>
  "key_error k = [CHR 0x27] @ k @ [CHR 0x27]"

definition get_or :: "'b option \<Rightarrow> 'b \<Rightarrow> 'b" where
  \<comment> \<open>\<open>m.get(key, default)\<close>\<close>
  "get_or v d = (case v of None \<Rightarrow> d | Some x \<Rightarrow> x)"

definition chunk_of_meta :: "nat \<Rightarrow> meta_entry \<Rightarrow> string + chunk" where
  \<comment> \<open>the chunk that \<open>load\<close> builds from the entry at position \<open>i\<close>, or the text of the
      \<open>KeyError\<close> of the first of \<open>m["text"]\<close>, \<open>m["doc_name"]\<close>, \<open>m["page"]\<close> that fails\<close>
  "chunk_of_meta i m =
     (case m_text m of
        None \<Rightarrow> Inl (key_error ''text'')
      | Some t \<Rightarrow>
          (case m_doc_name m of
             None \<Rightarrow> Inl (key_error ''doc_name'')
           | Some d \<Rightarrow>
               (case m_page m of
                  None \<Rightarrow> Inl (key_error ''page'')
                | Some p \<Rightarrow>
                    Inr \<lparr>text = t, doc_name = d, page = p,
                         section = get_or (m_section m) [],
                         clause_number = get_or (m_clause_number m) [],
                         heading_path = get_or (m_heading_path m) [],
                         cross_references = get_or (m_cross_references m) [],
                         chunk_id = get_or (m_chunk_id m) (int i)\<rparr>)))"

fun chunks_of_entries :: "nat \<Rightarrow> meta_entry list \<Rightarrow> string + chunk list" where
  \<comment> \<open>the comprehension over \<open>enumerate(meta)\<close>, which stops at the first exception\<close>
  "chunks_of_entries i [] = Inr []"
| "chunks_of_entries i (m # ms) =
     (case chunk_of_meta i m of
        Inl e \<Rightarrow> Inl e
      | Inr c \<Rightarrow> (case chunks_of_entries (Suc i) ms of Inl e \<Rightarrow> Inl e | Inr cs \<Rightarrow> Inr (c # cs)))"

definition load_failed :: "string \<Rightarrow> string" where
  \<comment> \<open>the warning of the \<open>except\<close> branch for an exception of text \<open>e\<close>\<close>
  "load_failed e = ''[WARNING] Failed to load index: '' @ e"

definition load ::
  "'a vector_store \<Rightarrow> 'a filesystem \<Rightarrow> 'a vector_store \<times> bool \<times> string list" where
  "load st fs =
     (case (faiss_files fs (index_path st), json_files fs (meta_path st)) of
        (Some fi, Some fm) \<Rightarrow>
          (case fi of
             BadFaiss e \<Rightarrow> (st, False, [load_failed e])
           | FaissIndex idx \<Rightarrow>
               (let st = st\<lparr>vs_index := Some idx\<rparr>
                in case fm of
                     BadJson e \<Rightarrow> (st, False, [load_failed e])
                   | JsonMeta meta \<Rightarrow>
                       (case chunks_of_entries 0 meta of
                          Inl e \<Rightarrow> (st, False, [load_failed e])
                        | Inr cs \<Rightarrow>
                            (st\<lparr>vs_chunks := cs, vs_is_loaded := True\<rparr>, True,
                             [''  Loaded index: '' @ str_int (int (length idx))
                                @ '' vectors, '' @ str_int (int (length cs))
                                @ '' chunks'']))))
      | _ \<Rightarrow> (st, False, []))"

definition search ::
  "('a list list \<Rightarrow> 'a list list \<Rightarrow> int \<Rightarrow> (real \<times> int) list) \<Rightarrow> 'a vector_store
     \<Rightarrow> 'a list list \<Rightarrow> int \<Rightarrow> 'a vector_store \<times> (chunk \<times> real) list \<times> string list" where
  \<comment> \<open>\<open>index_search idx q k\<close> is \<open>zip(scores[0], indices[0])\<close> of \<open>idx.search(q, k)\<close>\<close>
  "search index_search st query_embedding top_k =
     (case vs_index st of
        None \<Rightarrow> (st, [], [''[ERROR] Index not loaded.''])
      | Some idx \<Rightarrow>
          if \<not> vs_is_loaded st then (st, [], [''[ERROR] Index not loaded.''])
          else
            (st,
             map (\<lambda>(score, i). (vs_chunks st ! nat i, score))
               (filter (\<lambda>(score, i). \<not> (i < 0 \<or> int (length (vs_chunks st)) \<le> i))
                  (index_search idx query_embedding top_k)),
             []))"

section \<open>The retriever (\<open>core/retriever.py\<close>)\<close>

record retriever =
  top_k :: int
  threshold :: real

text \<open>
  A score is a real number. \<^const>\<open>top_k\<close> and \<^const>\<open>threshold\<close> are the fields \<open>_top_k\<close>
  and \<open>_threshold\<close>; the store and the backend that a retriever refers to are passed to
  \<open>retrieve\<close>. The word overlap of two texts is the exact quotient of the two counts,
  which the source rounds to a float before it compares it with \<open>0.7\<close>.
\<close>

definition text_overlap :: "string \<Rightarrow> string \<Rightarrow> real" where
  "text_overlap text_a text_b =
     (let words_a = set (split_ws (lower text_a));
          words_b = set (split_ws (lower text_b))
      in if words_a = {} \<or> words_b = {} then 0
         else real (card (words_a \<inter> words_b)) / real (card (words_a \<union> words_b)))"

fun dedup_loop ::
  "(chunk \<times> real) list \<Rightarrow> (chunk \<times> real) list \<Rightarrow> string list \<Rightarrow> (chunk \<times> real) list" where
  \<comment> \<open>the loop of \<open>_deduplicate\<close>; the inner loop with its \<open>break\<close> is \<^const>\<open>list_ex\<close>\<close>
  "dedup_loop [] kept seen_texts = kept"
| "dedup_loop ((c, score) # rest) kept seen_texts =
     (let is_dup = list_ex (\<lambda>seen. 7 / 10 < text_overlap (text c) seen) seen_texts
      in if \<not> is_dup then dedup_loop rest (kept @ [(c, score)]) (seen_texts @ [text c])
         else dedup_loop rest kept seen_texts)"

definition near_dup :: "chunk \<times> real \<Rightarrow> chunk \<times> real \<Rightarrow> bool" where
  \<comment> \<open>the test of the inner loop, on two results\<close>
  "near_dup x y = (7 / 10 < text_overlap (text (fst x)) (text (fst y)))"

definition deduplicate :: "(chunk \<times> real) list \<Rightarrow> (chunk \<times> real) list" where
  "deduplicate results = (if length results \<le> 1 then results else dedup_loop results [] [])"

definition retrieve ::
  "(string list \<Rightarrow> int \<Rightarrow> 'a list list)
     \<Rightarrow> ('a list list \<Rightarrow> 'a list list \<Rightarrow> int \<Rightarrow> (real \<times> int) list)
     \<Rightarrow> retriever \<Rightarrow> 'a vector_store \<Rightarrow> string \<Rightarrow> (chunk \<times> real) list \<times> string list" where
  "retrieve encode index_search r st query =
     (let query_emb = encode [query] 1;
          (st', results, out) = search index_search st query_emb (top_k r);
          filtered = filter (\<lambda>(c, score). threshold r \<le> score) results;
          deduped = deduplicate filtered
      in (deduped, out))"

fun citations_loop :: "(chunk \<times> real) list \<Rightarrow> string list \<Rightarrow> string list" where
  \<comment> \<open>the citation strings in the order first seen\<close>
  "citations_loop [] citations = citations"
| "citations_loop ((c, score) # rest) citations =
     (let cite = citation_string c
      in if cite \<notin> set citations then citations_loop rest (citations @ [cite])
         else citations_loop rest citations)"

definition format_citations :: "(chunk \<times> real) list \<Rightarrow> string" where
  "format_citations results =
     (if results = [] then [] else ''Sources: '' @ join ''; '' (citations_loop results []))"

definition clause_mark :: string where
  \<comment> \<open>the two characters U+0E22 U+0E07 that \<open>build_context\<close> writes before a clause
      number; they lie outside the eight bits of a character and are written as the
      bytes of their UTF-8 encoding\<close>
  "clause_mark = [CHR 0xE0, CHR 0xB8, CHR 0xA2, CHR 0xE0, CHR 0xB8, CHR 0x87]"

definition context_part :: "nat \<Rightarrow> chunk \<Rightarrow> string" where
  "context_part i c =
     (let header = ''[Source '' @ str_int (int i) @ '': '' @ doc_name c;
          header = (if clause_number c \<noteq> [] then header @ '' '' @ clause_mark @ clause_number c
                    else header);
          header = (if section c \<noteq> [] then header @ '' ('' @ section c @ '')'' else header);
          header = header @ '', p.'' @ str_int (page c) @ '']''
      in header @ [CHR 0x0A] @ text c)"

definition build_context :: "(chunk \<times> real) list \<Rightarrow> string" where
  "build_context results =
     (if results = [] then []
      else join ([CHR 0x0A, CHR 0x0A] @ ''---'' @ [CHR 0x0A, CHR 0x0A])
             (map (\<lambda>(i, (c, score)). context_part i c) (zip [1 ..< Suc (length results)] results)))"

definition get_best_score :: "(chunk \<times> real) list \<Rightarrow> real" where
  "get_best_score results = (if results = [] then 0 else Max (set (map snd results)))"

subsection \<open>A sample backend\<close>

text \<open>
  The theorems hold for every embedding function and every index search. To run the
  functions on concrete inputs, \<open>length_encode\<close> embeds a text as the vector of its
  length, and \<open>table_search\<close> answers every query with the first \<open>k\<close> rows of a table of
  scores and positions, as FAISS returns them (a position of \<open>-1\<close> fills a missing row).
\<close>

definition length_encode :: "string list \<Rightarrow> int \<Rightarrow> nat list list" where
  "length_encode texts batch_size = map (\<lambda>t. [length t]) texts"

definition table_search ::
  "(real \<times> int) list \<Rightarrow> nat list list \<Rightarrow> nat list list \<Rightarrow> int \<Rightarrow> (real \<times> int) list" where
  "table_search table idx q k = take (nat k) table"

definition mk_chunk :: "string \<Rightarrow> string \<Rightarrow> int \<Rightarrow> string \<Rightarrow> string \<Rightarrow> int \<Rightarrow> chunk" where
  \<comment> \<open>\<open>Chunk(text, doc_name, page, section, clause_number, chunk_id=cid)\<close>\<close>
  "mk_chunk t d p s cl cid =
     \<lparr>text = t, doc_name = d, page = p, section = s, clause_number = cl, heading_path = [],
      cross_references = [], chunk_id = cid\<rparr>"

definition sample_chunks :: "chunk list" where
  "sample_chunks =
     [mk_chunk ''Wear and tear is excluded from cover.'' ''Home.pdf'' 12 ''Exclusions'' ''4.2'' 0,
      mk_chunk ''wear and tear is excluded   from COVER.'' ''Home.pdf'' 13 ''Exclusions'' ''4.3'' 1,
      mk_chunk ''Claims must be lodged within thirty days.'' ''Home.pdf'' 20 ''Claims'' ''7.1'' 2,
      mk_chunk ''The excess is shown in the schedule.'' ''Home.pdf'' 30 ''Excess'' ''9'' 3]"

definition sample_store :: "nat vector_store" where
  \<comment> \<open>the store after \<open>build_index\<close> on the sample chunks\<close>
  "sample_store =
     \<lparr>db_dir = ''vector_db'', vs_index = Some (length_encode (map text sample_chunks) 16),
      vs_chunks = sample_chunks, vs_is_loaded = True\<rparr>"

definition sample_table :: "(real \<times> int) list" where
  "sample_table = [(9 / 10, 0), (8 / 10, 1), (1 / 2, 2), (1 / 10, 3), (0, - 1), (0, 7)]"

definition sample_retriever :: retriever where
  "sample_retriever = \<lparr>top_k = 5, threshold = 1 / 4\<rparr>"

definition section_texts :: "document_page list \<Rightarrow> string list" where
  \<comment> \<open>the values that \<open>section_text\<close> takes in \<open>chunk_pages\<close> and that are not empty, in the
      order of the pages and of the sections of each page\<close>
  "section_texts pages =
     concat (map (\<lambda>pg. filter (\<lambda>t. t \<noteq> [])
                          (map (\<lambda>sc. strip (join [CHR 0x0A] (lines sc)))
                             (split_into_sections (page_text pg)))) pages)"

definition numbered :: "chunker_state \<Rightarrow> bool" where
  \<comment> \<open>the invariant of the loops of \<open>chunk_pages\<close>: the chunks emitted so far carry the
      numbers from 0 in order, and the counter is their number\<close>
  "numbered st =
     (map chunk_id (fst st) = map int [0 ..< length (fst st)]
      \<and> fst (snd st) = int (length (fst st)))"

definition section_chunks :: "int \<Rightarrow> int \<Rightarrow> int \<Rightarrow> sec \<Rightarrow> string list" where
  \<comment> \<open>the sub-chunks that a section contributes\<close>
  "section_chunks cs co mn sc =
     (let t = strip (join [CHR 0x0A] (lines sc))
      in if t = [] then [] else sub_chunk_text t cs co mn)"

definition sample_pages :: "document_page list" where
  "sample_pages =
     [\<lparr>page_doc_name = ''Home.pdf'', page_num = 1,
       page_text = ''Intro line'' @ [CHR 0x0A] @ ''GENERAL CONDITIONS'' @ [CHR 0x0A]
                   @ ''We exclude wear.'' @ [CHR 0x0A] @ ''3.1. Limits apply'' @ [CHR 0x0A]
                   @ ''body see section 4'',
       headings = [''GENERAL CONDITIONS'', ''3.1. Limits apply'']\<rparr>,
      \<lparr>page_doc_name = ''Home.pdf'', page_num = 2,
       page_text = ''Exclusions:'' @ [CHR 0x0A] @ ''Wear and tear is excluded.'',
       headings = []\<rparr>]"

definition merge_page :: document_page where
  \<comment> \<open>a page whose last sentence is a small remainder\<close>
  "merge_page =
     \<lparr>page_doc_name = ''Home.pdf'', page_num = 1,
      page_text = ''Aaaaaaaaaaaaaaaaaaaaaaa. Bbbbbbbbbbbbbbbbbbbbbbb. Hi.'', headings = []\<rparr>"

definition drop_page :: document_page where
  \<comment> \<open>a page with a small sentence between two large ones\<close>
  "drop_page =
     \<lparr>page_doc_name = ''Home.pdf'', page_num = 1,
      page_text = ''Aaaaaaaaaaaa. Hi. Bbbbbbbbbbbb.'', headings = []\<rparr>"

section \<open>The answer composer (\<open>core/llm_backend.py\<close>)\<close>

definition nl :: string where
  \<comment> \<open>the line feed\<close>
  "nl = [CHR 0x0A]"

definition dq :: string where
  \<comment> \<open>the double quote\<close>
  "dq = [CHR 0x22]"

definition em_dash :: string where
  \<comment> \<open>the dash U+2014 of some messages lies outside the eight bits of a character; it
      is written as the three bytes of its UTF-8 encoding\<close>
  "em_dash = [CHR 0xE2, CHR 0x80, CHR 0x94]"

record gen_result =
  llm_answer :: string
  llm_follow_ups :: "string list"

text \<open>
  \<^const>\<open>llm_answer\<close> and \<^const>\<open>llm_follow_ups\<close> are the keys \<open>answer\<close> and \<open>follow_ups\<close> of the
  dictionary that \<open>generate\<close> returns.
\<close>

fun lazy_scan :: "string \<Rightarrow> string \<Rightarrow> string option" where
  \<comment> \<open>\<open>(.+?)(?:\n|INSTRUCTIONS:)\<close> with \<open>re.DOTALL\<close>, the group holding \<open>acc\<close> already:
      the shortest group that a line feed or \<open>INSTRUCTIONS:\<close> follows\<close>
  "lazy_scan acc [] = None"
| "lazy_scan acc (c # cs) =
     (if c = CHR 0x0A \<or> prefix ''INSTRUCTIONS:'' (c # cs) then Some acc
      else lazy_scan (acc @ [c]) cs)"

definition lazy_group :: "string \<Rightarrow> string option" where
  "lazy_group s = (case s of [] \<Rightarrow> None | c # cs \<Rightarrow> lazy_scan [c] cs)"

fun try_skips :: "nat \<Rightarrow> string \<Rightarrow> string option" where
  \<comment> \<open>\<open>\s*\<close> is greedy: it gives back one character at a time while the rest fails\<close>
  "try_skips 0 r = lazy_group r"
| "try_skips (Suc k) r =
     (case lazy_group (drop (Suc k) r) of Some g \<Rightarrow> Some g | None \<Rightarrow> try_skips k r)"

fun search_question :: "string \<Rightarrow> string option" where
  \<comment> \<open>\<open>re.search(r"QUESTION:\s*(.+?)(?:\n|INSTRUCTIONS:)", prompt, re.DOTALL)\<close>: group 1
      of the leftmost match\<close>
  "search_question [] = None"
| "search_question (c # cs) =
     (case (if prefix ''QUESTION:'' (c # cs)
            then (let r = drop 9 (c # cs) in try_skips (length (takeWhile is_space r)) r)
            else None)
      of Some g \<Rightarrow> Some g
       | None \<Rightarrow> search_question cs)"

definition extract_question :: "string \<Rightarrow> string" where
  "extract_question prompt =
     (case search_question prompt of
        Some g \<Rightarrow> strip g
      | None \<Rightarrow> strip (last (split_on (CHR 0x0A) prompt)))"

fun find_words_from :: "string \<Rightarrow> string \<Rightarrow> string list" where
  "find_words_from cur [] = (if cur = [] then [] else [cur])"
| "find_words_from cur (c # cs) =
     (if is_word_char c then find_words_from (cur @ [c]) cs
      else (if cur = [] then find_words_from [] cs else cur # find_words_from [] cs))"

definition find_words :: "string \<Rightarrow> string list" where
  \<comment> \<open>\<open>re.findall(r'\b\w+\b', s)\<close>: the maximal runs of word characters\<close>
  "find_words s = find_words_from [] s"

definition stop_words :: "string list" where
  "stop_words =
     [''is'', ''the'', ''a'', ''an'', ''and'', ''or'', ''of'', ''to'', ''in'', ''for'',
      ''on'', ''with'', ''by'', ''at'', ''from'', ''as'', ''it'', ''that'', ''this'', ''are'',
      ''was'', ''were'', ''be'', ''been'', ''being'', ''have'', ''has'', ''had'', ''do'', ''does'',
      ''did'', ''will'', ''would'', ''could'', ''should'', ''may'', ''might'', ''shall'', ''can'', ''what'',
      ''how'', ''which'', ''who'', ''when'', ''where'', ''why'', ''under'', ''my'', ''your'', ''their'',
      ''its'', ''there'', ''here'', ''about'', ''than'', ''then'', ''also'', ''just'']"

definition get_keywords :: "string \<Rightarrow> string set" where
  "get_keywords s = set (find_words (lower s)) - set stop_words"

definition extract_topic :: "chunk \<Rightarrow> string \<Rightarrow> string" where
  \<comment> \<open>\<open>heading.split(">")\<close> is never empty, so the test \<open>if parts\<close> always holds\<close>
  "extract_topic c question_lower =
     (let h = (if heading_path c \<noteq> [] then heading_path c
               else if section c \<noteq> [] then section c else []);
          parts = split_on (CHR ''>'') h;
          topic = strip_chars [CHR 0x27] (strip_chars dq (strip (last parts)));
          topic_lower = lower topic
      in if \<not> contains question_lower topic_lower \<and> 2 < length topic then topic else [])"

definition topic_templates :: "(string \<times> string) list" where
  \<comment> \<open>a dictionary, iterated in the order written\<close>
  "topic_templates =
     [(''exclusion'', ''What specific exclusions apply to {topic}?''),
      (''cover'', ''What are the limits for {topic} coverage?''),
      (''definition'', ''How does the policy define '{topic}'?''),
      (''claim'', ''How do I make a claim for {topic}?''),
      (''condition'', ''What conditions must be met for {topic}?''),
      (''excess'', ''What excess applies to {topic}?''),
      (''limit'', ''What are the coverage limits for {topic}?''),
      (''waiting'', ''Is there a waiting period for {topic}?'')]"

fun format_from :: "nat \<Rightarrow> string \<Rightarrow> string \<Rightarrow> string" where
  \<comment> \<open>\<open>skip\<close> counts the characters of a placeholder still to pass\<close>
  "format_from skip [] topic = []"
| "format_from skip (c # cs) topic =
     (if 0 < skip then format_from (skip - 1) cs topic
      else if prefix ''{topic}'' (c # cs) then topic @ format_from 6 cs topic
      else c # format_from 0 cs topic)"

definition format_topic :: "string \<Rightarrow> string \<Rightarrow> string" where
  \<comment> \<open>\<open>template.format(topic=topic)\<close> for a template whose only braces are \<open>{topic}\<close>\<close>
  "format_topic template topic = format_from 0 template topic"

fun topics_loop ::
  "(chunk \<times> real) list \<Rightarrow> string \<Rightarrow> string list \<Rightarrow> string set \<Rightarrow> string list" where
  \<comment> \<open>the loop over the chunks; the inner loop stops at the first template whose key is
      in the section and not seen\<close>
  "topics_loop [] question_lower follow_ups seen_topics = follow_ups"
| "topics_loop ((c, score) # rest) question_lower follow_ups seen_topics =
     (let sect = lower (if section c \<noteq> [] then section c
                        else if heading_path c \<noteq> [] then heading_path c else []);
          (follow_ups, seen_topics) =
            (case List.find (\<lambda>(topic_key, template).
                               contains sect topic_key \<and> topic_key \<notin> seen_topics)
                    topic_templates of
               None \<Rightarrow> (follow_ups, seen_topics)
             | Some (topic_key, template) \<Rightarrow>
                 (let topic = extract_topic c question_lower
                  in if topic \<noteq> [] \<and> topic \<notin> seen_topics
                     then (follow_ups @ [format_topic template topic],
                           insert topic (insert topic_key seen_topics))
                     else (follow_ups, seen_topics)))
      in if 3 \<le> length follow_ups then follow_ups
         else topics_loop rest question_lower follow_ups seen_topics)"

definition generic_follow_ups :: "string list" where
  "generic_follow_ups =
     [''What items are excluded from coverage?'',
      ''What is the claims process?'',
      ''What are the policy's general conditions?'',
      ''How is the excess calculated?'',
      ''What additional optional covers are available?'',
      ''What are my obligations under this policy?'']"

fun generic_loop :: "string list \<Rightarrow> string \<Rightarrow> string list \<Rightarrow> string list" where
  "generic_loop [] question_lower follow_ups = follow_ups"
| "generic_loop (q # rest) question_lower follow_ups =
     (if 3 \<le> length follow_ups then follow_ups
      else
        (let q_words = get_keywords (lower q);
             question_words = get_keywords question_lower
         in if card (q_words \<inter> question_words) < 2
            then generic_loop rest question_lower (follow_ups @ [q])
            else generic_loop rest question_lower follow_ups))"

definition generate_follow_ups :: "(chunk \<times> real) list \<Rightarrow> string \<Rightarrow> string list" where
  "generate_follow_ups context_chunks question_lower =
     take 3 (generic_loop generic_follow_ups question_lower
               (topics_loop context_chunks question_lower [] {}))"

fun related_loop ::
  "(string \<Rightarrow> string) \<Rightarrow> (chunk \<times> real) list \<Rightarrow> string \<Rightarrow> string set \<Rightarrow> string" where
  \<comment> \<open>the loop of \<open>_no_answer_response\<close> over the first three chunks\<close>
  "related_loop clean [] response seen = response"
| "related_loop clean ((c, score) # rest) response seen =
     (let cite = citation_string c
      in if cite \<notin> seen
         then
           (let snippet = strip (take 150 (clean (text c)));
                snippet = (if 150 < length (text c) then snippet @ ''...'' else snippet)
            in related_loop clean rest
                 (response @ ''- '' @ cite @ '': '' @ dq @ snippet @ dq @ nl) (insert cite seen))
         else related_loop clean rest response seen)"

definition no_answer_response ::
  "(string \<Rightarrow> string) \<Rightarrow> (chunk \<times> real) list \<Rightarrow> string \<Rightarrow> string" where
  \<comment> \<open>\<open>clean\<close> is \<open>_clean_pdf_text\<close>; \<open>_format_citations\<close> of this class is the function of
      the same text in the retriever\<close>
  "no_answer_response clean context_chunks explanation =
     (let response = explanation @ nl
      in if context_chunks \<noteq> []
         then
           (let response = response @ nl @ ''**Related sections I found:**'' @ nl;
                response = related_loop clean (take 3 context_chunks) response {}
            in response @ nl @ format_citations context_chunks)
         else response @ nl @ ''Try rephrasing your question or asking about a specific policy topic like ''
                @ ''coverage, exclusions, or claims.'')"

definition generate ::
  "(string \<Rightarrow> string) \<Rightarrow> (string \<Rightarrow> string \<Rightarrow> (chunk \<times> real) list \<Rightarrow> string) \<Rightarrow> string
     \<Rightarrow> (chunk \<times> real) list \<Rightarrow> gen_result" where
  \<comment> \<open>\<open>MockLLMBackend.generate\<close>; \<open>clean\<close> is \<open>_clean_pdf_text\<close> and \<open>build\<close> is
      \<open>_build_structured_answer\<close>, which make the text of the answer and are parameters
      here\<close>
  "generate clean build prompt context_chunks =
     (if context_chunks = []
      then \<lparr>llm_answer = no_answer_response clean []
                            (''I couldn't find anything related to that in the loaded policy documents.''),
            llm_follow_ups = [''What does this policy cover?'',
                              ''What are the general exclusions?'',
                              ''How do I make a claim?'']\<rparr>
      else
        (let q = extract_question prompt;
             question_lower = lower q;
             best_score = Max (set (map snd context_chunks))
         in if best_score < 1 / 4
            then \<lparr>llm_answer = no_answer_response clean context_chunks
                                  (''I couldn't find a direct answer to that, but here are some related sections ''
                                    @ ''that might help.''),
                  llm_follow_ups = generate_follow_ups context_chunks question_lower\<rparr>
            else \<lparr>llm_answer = build q question_lower context_chunks,
                  llm_follow_ups = generate_follow_ups context_chunks question_lower\<rparr>))"

definition sample_prompt :: "string \<Rightarrow> string" where
  \<comment> \<open>the part of the prompt of \<open>build_qa_prompt\<close> that \<open>_extract_question\<close> reads\<close>
  "sample_prompt q = ''QUESTION: '' @ q @ nl @ nl @ ''INSTRUCTIONS:'' @ nl"

definition overlapping_question :: string where
  \<comment> \<open>a question that shares two keywords with each of four generic suggestions\<close>
  "overlapping_question =
     ''Are excluded items, the claims process, general policy conditions and the excess calculated?''"

definition plain_chunk :: chunk where
  \<comment> \<open>a chunk of a page without headings\<close>
  "plain_chunk = mk_chunk ''This policy is a contract between you and us.'' ''Home.pdf'' 1 [] [] 0"

section \<open>The pipeline (\<open>core/prompts.py\<close>, \<open>core/pipeline.py\<close>)\<close>

definition SYSTEM_PROMPT :: string where
  "SYSTEM_PROMPT =
     ''You are a Policy Q&A Assistant. Your role is to answer questions about ''
     @ ''insurance policy documents accurately and precisely.'' @ nl @ nl
     @ ''STRICT RULES:'' @ nl
     @ ''1. Answer ONLY based on the provided context from policy documents.'' @ nl
     @ ''2. NEVER make up information or use outside knowledge.'' @ nl
     @ ''3. Always cite the specific source (document name, section, clause number, ''
     @ ''page) for every claim.'' @ nl
     @ ''4. If the context does not contain enough information to answer the question ''
     @ ''definitively, you MUST respond with: '' @ dq
     @ ''I cannot find a definitive answer in the provided policy wording.'' @ dq @ nl
     @ ''5. If the context contains conflicting information, explain the ambiguity ''
     @ ''and cite both sources.'' @ nl @ ''6. Be concise but thorough '' @ em_dash
     @ '' include all relevant details from the context.'' @ nl
     @ ''7. Use the exact terminology from the policy documents.'' @ nl"

definition build_qa_prompt :: "string \<Rightarrow> string \<Rightarrow> string" where
  \<comment> \<open>\<open>QA_PROMPT_TEMPLATE.format(system_prompt=SYSTEM_PROMPT, context=context,
      question=question)\<close>\<close>
  "build_qa_prompt q context =
     SYSTEM_PROMPT
     @ nl @ nl @ ''CONTEXT FROM POLICY DOCUMENTS:'' @ nl
     @ context
     @ nl @ nl @ ''QUESTION: ''
     @ q
     @ nl @ nl @ ''INSTRUCTIONS:'' @ nl
       @ ''- Answer the question based ONLY on the context above.'' @ nl
       @ ''- Quote relevant policy language where helpful.'' @ nl
       @ ''- If multiple sources are relevant, synthesize the information.'' @ nl
       @ ''- If the context does not adequately address the question, say '' @ dq
       @ ''I cannot find a definitive answer in the provided policy wording.'' @ dq
       @ '' and list the closest related clauses you found.'' @ nl
       @ ''- End your answer with a blank line followed by the citations.'' @ nl @ nl
       @ ''ANSWER:''"

record source_detail =
  src_doc_name :: string
  src_section :: string
  src_clause :: string
  src_page :: int
  src_heading_path :: string
  src_score :: real
  src_snippet :: string

record payload =
  question :: string
  answer :: string
  citations :: string
  sources :: "source_detail list"
  confidence :: real
  follow_ups :: "string list"

text \<open>
  The fields of a \<^typ>\<open>source_detail\<close> are the keys \<open>doc_name\<close>, \<open>section\<close>, \<open>clause\<close>,
  \<open>page\<close>, \<open>heading_path\<close>, \<open>score\<close> and \<open>snippet\<close> of an entry of \<open>sources\<close>.
\<close>

record 'a pipeline =
  pl_vector_store :: "'a vector_store option"
  pl_retriever :: "retriever option"
  is_initialized :: bool

text \<open>
  \<^const>\<open>pl_vector_store\<close> and \<^const>\<open>pl_retriever\<close> are \<open>_vector_store\<close> and \<open>_retriever\<close>,
  \<open>None\<close> until \<open>initialize\<close> sets them; \<^const>\<open>is_initialized\<close> is \<open>_is_initialized\<close>. The
  embedding backend, the index search, the answer backend \<open>_llm\<close> and \<open>round(x, 4)\<close> are
  parameters of \<open>ask\<close>.
\<close>

definition GREETING_PATTERNS :: "string list" where
  "GREETING_PATTERNS =
     [''hi'', ''hello'', ''hey'', ''good morning'', ''good afternoon'',
      ''good evening'', ''howdy'', ''hola'', ''sup'', ''yo'',
      ''hii'', ''hiii'', ''hihi'']"

definition IDENTITY_PATTERNS :: "string list" where
  "IDENTITY_PATTERNS =
     [''who are you'', ''who are u'', ''what are you'',
      ''what are u'', ''what is this'', ''what do you do'',
      ''introduce yourself'', ''what can you do'', ''what can u do'']"

definition THANKS_PATTERNS :: "string list" where
  "THANKS_PATTERNS =
     [''thanks'', ''thank you'', ''thank u'', ''thx'', ''ty'',
      ''cheers'']"

definition HELP_PATTERNS :: "string list" where
  "HELP_PATTERNS =
     [''help'', ''help me'', ''what can i ask'', ''how to use'']"

definition doc_names :: "'a vector_store \<Rightarrow> string list" where
  \<comment> \<open>\<open>list(set(c.doc_name for c in self._chunks))\<close>, in some order\<close>
  "doc_names st = remdups (map doc_name (vs_chunks st))"

definition greeting_answer :: "nat \<Rightarrow> string" where
  "greeting_answer doc_count =
     ''Hello! I'm your **Policy Q&A Assistant**. I have **''
       @ str_int (int doc_count)
       @ '' policy document''
       @ (if doc_count \<noteq> 1 then ''s'' else [])
       @ ''** loaded and ready to search.'' @ nl @ nl
       @ ''Ask me anything about your insurance policies '' @ em_dash
       @ '' for example:'' @ nl @ ''- '' @ dq @ ''Is wear-and-tear covered?'' @ dq @ nl
       @ ''- '' @ dq @ ''What is the excess for water damage?'' @ dq @ nl @ ''- '' @ dq
       @ ''What definitions apply to Insured Person?'' @ dq @ nl @ nl
       @ ''I'll find the relevant sections and cite the exact source.''"

definition identity_answer :: string where
  "identity_answer =
     ''I'm a **Policy Q&A Assistant** '' @ em_dash
       @ '' an AI-powered chatbot that answers questions about insurance policy documents.''
       @ nl @ nl
       @ ''I search through the loaded policy PDFs and give you **grounded answers ''
       @ ''with clause-level citations** so you know exactly where the information ''
       @ ''comes from.'' @ nl @ nl @ ''Just type your question about any policy topic!''"

definition thanks_answer :: string where
  "thanks_answer =
     ''You're welcome! Feel free to ask more questions about your policy anytime.''"

definition help_answer :: string where
  "help_answer =
     ''Here's how to get the best results:'' @ nl @ nl
       @ ''**Ask specific questions** about your policy, such as:'' @ nl
       @ ''- Coverage: '' @ dq @ ''What does the contents insurance cover?'' @ dq @ nl
       @ ''- Exclusions: '' @ dq @ ''Is flood damage excluded?'' @ dq @ nl
       @ ''- Definitions: '' @ dq @ ''How is 'Insured Event' defined?'' @ dq @ nl
       @ ''- Claims: '' @ dq @ ''How do I lodge a claim?'' @ dq @ nl
       @ ''- Conditions: '' @ dq @ ''What are my obligations under the policy?'' @ dq
       @ nl @ nl
       @ ''I'll search the policy documents and provide answers with exact citations.''"

definition conversational :: "string \<Rightarrow> string \<Rightarrow> string list \<Rightarrow> payload" where
  \<comment> \<open>the dictionary of a conversational reply\<close>
  "conversational q a fus =
     \<lparr>question = q, answer = a, citations = [], sources = [], confidence = 1,
      follow_ups = fus\<rparr>"

definition normalize_question :: "string \<Rightarrow> string" where
  \<comment> \<open>\<open>question.lower().strip().rstrip("?!.")\<close>\<close>
  "normalize_question q = rstrip_chars ''?!.'' (strip (lower q))"

definition detect_conversational :: "'a pipeline \<Rightarrow> string \<Rightarrow> payload option" where
  "detect_conversational p qn =
     (let q = normalize_question qn
      in if q \<in> set GREETING_PATTERNS
            \<or> list_ex (\<lambda>g. prefix g q) [''hi '', ''hey '', ''hello '']
         then
           (let names = (case pl_vector_store p of Some st \<Rightarrow> doc_names st | None \<Rightarrow> []);
                doc_count = length names
            in Some (conversational qn (greeting_answer doc_count)
                 [''What does this policy cover?'',
                  ''What are the general exclusions?'',
                  ''How do I make a claim?'']))
         else if q \<in> set IDENTITY_PATTERNS
         then Some (conversational qn identity_answer
                 [''What documents are loaded?'',
                  ''What items are excluded from coverage?'',
                  ''What is the claims process?''])
         else if q \<in> set THANKS_PATTERNS
         then Some (conversational qn thanks_answer [])
         else if q \<in> set HELP_PATTERNS
         then Some (conversational qn help_answer
                 [''What does this policy cover?'',
                  ''What are the general exclusions?'',
                  ''What is the excess amount?''])
         else None)"

datatype event =
    Encode "string list"  \<comment> \<open>a call of \<open>encode\<close> of the embedding backend\<close>
  | Search int  \<comment> \<open>a call of \<open>search\<close> of the vector store\<close>
  | Generate string  \<comment> \<open>a call of \<open>generate\<close> of the answer backend\<close>

definition source_of :: "(real \<Rightarrow> real) \<Rightarrow> chunk \<times> real \<Rightarrow> source_detail" where
  "source_of round4 r =
     (case r of (c, score) \<Rightarrow>
        \<lparr>src_doc_name = doc_name c, src_section = section c, src_clause = clause_number c,
         src_page = page c, src_heading_path = heading_path c, src_score = round4 score,
         src_snippet = take 200 (text c)\<rparr>)"

definition ask ::
  "(string list \<Rightarrow> int \<Rightarrow> 'a list list)
     \<Rightarrow> ('a list list \<Rightarrow> 'a list list \<Rightarrow> int \<Rightarrow> (real \<times> int) list)
     \<Rightarrow> (string \<Rightarrow> (chunk \<times> real) list \<Rightarrow> error + gen_result)
     \<Rightarrow> (real \<Rightarrow> real)
     \<Rightarrow> 'a pipeline \<Rightarrow> string \<Rightarrow> error + (payload \<times> event list)" where
  \<comment> \<open>the payload and the calls made to the backends, in order; \<open>initialize\<close> sets the
      store and the retriever, and a call on \<open>None\<close> raises \<open>AttributeError\<close>\<close>
  "ask encode index_search llm_generate round4 p qn =
     (if \<not> is_initialized p
      then Inl (RuntimeError ''Pipeline not initialized. Call initialize() first.'')
      else
        (case detect_conversational p qn of
           Some conv_response \<Rightarrow> Inr (conv_response, [])
         | None \<Rightarrow>
             (case (pl_retriever p, pl_vector_store p) of
                (Some r, Some st) \<Rightarrow>
                  (let (results, out) = retrieve encode index_search r st qn;
                       context = build_context results;
                       prompt = build_qa_prompt qn context
                   in case llm_generate prompt results of
                        Inl e \<Rightarrow> Inl e
                      | Inr llm_result \<Rightarrow>
                          Inr (\<lparr>question = qn, answer = llm_answer llm_result,
                                citations = format_citations results,
                                sources = map (source_of round4) results,
                                confidence = round4 (get_best_score results),
                                follow_ups = llm_follow_ups llm_result\<rparr>,
                               [Encode [qn], Search (top_k r), Generate prompt]))
              | _ \<Rightarrow> Inl (AttributeError ''retrieve''))))"

definition sample_pipeline :: "nat pipeline" where
  \<comment> \<open>a pipeline after \<open>initialize\<close> on the sample store\<close>
  "sample_pipeline =
     \<lparr>pl_vector_store = Some sample_store, pl_retriever = Some sample_retriever,
      is_initialized = True\<rparr>"

definition sample_llm :: "string \<Rightarrow> (chunk \<times> real) list \<Rightarrow> error + gen_result" where
  \<comment> \<open>the rule-based backend with texts of the answer left plain\<close>
  "sample_llm prompt results =
     Inr (generate (\<lambda>s. s) (\<lambda>q ql cc. ''Based on the policy documents:'') prompt results)"
chapter \<open>Properties\<close>

section \<open>Citation strings\<close>

text \<open>
  Claim C7. The citation string of a chunk starts with the chunk's \<open>doc_name\<close> and ends
  with the page marker, a space and \<open>p.\<close> followed by the page number. The clause marker,
  the paragraph sign followed by the clause number, stands right after the document name
  exactly when \<open>clause_number\<close> is not empty. The string is a function of \<open>doc_name\<close>,
  \<open>clause_number\<close>, \<open>section\<close>, \<open>heading_path\<close> and \<open>page\<close> alone: the text, the
  cross references and the \<open>chunk_id\<close> do not change it.
\<close>

theorem citation_string_well_formed:
  "prefix (doc_name c) (citation_string c)
   \<and> suffix ('' p.'' @ str_int (page c)) (citation_string c)
   \<and> (prefix (doc_name c @ '' '' @ [section_sign] @ clause_number c @ '' '') (citation_string c)
        \<longleftrightarrow> clause_number c \<noteq> [])
   \<and> citation_string (c\<lparr>text := t, cross_references := xs, chunk_id := i\<rparr>) = citation_string c"
  by (auto simp: citation_string_def citation_parts_def section_sign_def suffix_def Let_def)

theorem citation_string_well_formed_witness:
  "citation_string \<lparr>text = ''Wear and tear is excluded.'', doc_name = ''Home.pdf'', page = 12,
       section = ''Exclusions'', clause_number = ''4.2'', heading_path = [],
       cross_references = [], chunk_id = 0\<rparr>
     = ''Home.pdf '' @ [section_sign] @ ''4.2 (Exclusions) p.12''
   \<and> prefix (''Home.pdf '' @ [section_sign] @ ''4.2 '')
        (citation_string \<lparr>text = ''Wear and tear is excluded.'', doc_name = ''Home.pdf'', page = 12,
       section = ''Exclusions'', clause_number = ''4.2'', heading_path = [],
       cross_references = [], chunk_id = 0\<rparr>)"
  using citation_string_well_formed
    [of "\<lparr>text = ''Wear and tear is excluded.'', doc_name = ''Home.pdf'', page = 12,
       section = ''Exclusions'', clause_number = ''4.2'', heading_path = [],
       cross_references = [], chunk_id = 0\<rparr>"]
  by (simp add: citation_string_def citation_parts_def str_int_def digits_of.simps digit_char_def)

section \<open>Lemmas on the persisted metadata\<close>

lemma chunk_of_meta_of_chunk: "chunk_of_meta i (meta_of_chunk c) = Inr c"
  by (simp add: chunk_of_meta_def meta_of_chunk_def get_or_def)

lemma chunks_of_entries_meta: "chunks_of_entries i (map meta_of_chunk cs) = Inr cs"
  by (induction cs arbitrary: i) (simp_all add: chunk_of_meta_of_chunk)

section \<open>The vector store\<close>

text \<open>
  Claim C1, as the code has it. Called with an empty chunk sequence, \<open>build_index\<close> prints a
  warning and returns normally: it raises no exception, it leaves the store as it was (no
  index, not loaded), and it writes no file. \<open>save\<close> on a store that has no index prints
  a warning and leaves the file system as it was, so no index file and no metadata file
  come from an empty corpus.
\<close>

theorem build_index_empty:
  "build_index encode st [] batch_size = Inr (st, [''[WARNING] No chunks to index.''])
   \<and> (vs_index st = None \<longrightarrow> save st fs = Inr (fs, [''[WARNING] No index to save.'']))"
  by (simp add: build_index_def save_def)

theorem build_index_empty_witness:
  "build_index length_encode (VectorStore ''vector_db'') [] 16
     = Inr (VectorStore ''vector_db'', [''[WARNING] No chunks to index.''])
   \<and> vs_index (VectorStore ''vector_db'' :: nat vector_store) = None
   \<and> save (VectorStore ''vector_db'' :: nat vector_store) empty_fs
       = Inr (empty_fs, [''[WARNING] No index to save.''])"
  using build_index_empty [of length_encode "VectorStore ''vector_db''" 16 empty_fs]
  by (simp add: VectorStore_def)

text \<open>
  The claim as the specification states it fails: on the empty sequence the result is a
  normal return, not the exception \<open>EmptyCorpusError\<close>.
\<close>

theorem build_index_empty_counterexample:
  "build_index length_encode (VectorStore ''vector_db'') [] 16
     = Inr (VectorStore ''vector_db'', [''[WARNING] No chunks to index.''])
   \<and> build_index length_encode (VectorStore ''vector_db'') [] 16 \<noteq> Inl EmptyCorpusError"
  by (simp add: build_index_def)

text \<open>
  Claim C2. For a chunk sequence that is not empty, \<open>build_index\<close> and then \<open>save\<close>
  succeed, and \<open>load\<close> of any store on the same directory returns \<open>True\<close> with the chunk
  sequence that was built: equal as a list, so in the same order and with every field,
  the \<open>chunk_id\<close> among them, as before; the index read back is the index written.
\<close>

theorem index_round_trip:
  assumes "chunks \<noteq> []"
  shows "\<exists>st1 out1 fs1 out2.
           build_index encode st0 chunks batch_size = Inr (st1, out1)
         \<and> save st1 fs = Inr (fs1, out2)
         \<and> (\<forall>st'. db_dir st' = db_dir st0 \<longrightarrow>
               (case load st' fs1 of (st2, ok, out3) \<Rightarrow>
                  ok \<and> vs_chunks st2 = chunks \<and> vs_chunks st2 = vs_chunks st1
                  \<and> vs_index st2 = vs_index st1 \<and> vs_is_loaded st2))"
  using assms
  by (simp add: build_index_def save_def load_def Let_def index_path_def meta_path_def
      chunks_of_entries_meta)

theorem index_round_trip_witness:
  "sample_chunks \<noteq> []
   \<and> fst (snd (load (VectorStore ''vector_db'')
        (fst (projr (save (fst (projr (build_index length_encode (VectorStore ''vector_db'')
           sample_chunks 16))) empty_fs)))))
   \<and> vs_chunks (fst (load (VectorStore ''vector_db'')
        (fst (projr (save (fst (projr (build_index length_encode (VectorStore ''vector_db'')
           sample_chunks 16))) empty_fs))))) = sample_chunks"
proof -
  have h: "sample_chunks \<noteq> []" by (simp add: sample_chunks_def)
  from index_round_trip [OF h, of length_encode "VectorStore ''vector_db''" 16 empty_fs]
  obtain st1 out1 fs1 out2 where
    b: "build_index length_encode (VectorStore ''vector_db'') sample_chunks 16 = Inr (st1, out1)"
    and s: "save st1 empty_fs = Inr (fs1, out2)"
    and l: "\<forall>st'. db_dir st' = db_dir (VectorStore ''vector_db'' :: nat vector_store) \<longrightarrow>
               (case load st' fs1 of (st2, ok, out3) \<Rightarrow>
                  ok \<and> vs_chunks st2 = sample_chunks \<and> vs_chunks st2 = vs_chunks st1
                  \<and> vs_index st2 = vs_index st1 \<and> vs_is_loaded st2)"
    by blast
  from l [rule_format, of "VectorStore ''vector_db''"]
  have "fst (snd (load (VectorStore ''vector_db'') fs1))
        \<and> vs_chunks (fst (load (VectorStore ''vector_db'') fs1)) = sample_chunks"
    by (simp split: prod.splits)
  with h b s show ?thesis by simp
qed

text \<open>
  Claim C9. On a store whose index has not been built or loaded (no index, or the flag
  \<open>_is_loaded\<close> not set), \<open>search\<close> returns the empty sequence for every query embedding
  and every \<open>top_k\<close>; it prints the error line, raises nothing, and leaves the store as it
  was.
\<close>

theorem search_not_loaded:
  "vs_index st = None \<or> \<not> vs_is_loaded st \<Longrightarrow>
   search index_search st query_embedding k = (st, [], [''[ERROR] Index not loaded.''])"
  by (auto simp: search_def split: option.splits)

theorem search_not_loaded_witness:
  "vs_index (VectorStore ''vector_db'' :: nat vector_store) = None
   \<and> \<not> vs_is_loaded (VectorStore ''vector_db'' :: nat vector_store)
   \<and> search (table_search sample_table) (VectorStore ''vector_db'') [[25]] 5
       = (VectorStore ''vector_db'', [], [''[ERROR] Index not loaded.''])"
proof -
  have h: "vs_index (VectorStore ''vector_db'' :: nat vector_store) = None
      \<or> \<not> vs_is_loaded (VectorStore ''vector_db'' :: nat vector_store)"
    by (simp add: VectorStore_def)
  from search_not_loaded [OF h, of "table_search sample_table" "[[25]]" 5]
  show ?thesis by (simp add: VectorStore_def)
qed

section \<open>Lemmas on deduplication\<close>

lemma text_overlap_sym: "text_overlap a b = text_overlap b a"
  by (simp add: text_overlap_def Let_def Int_commute Un_commute disj_commute)


lemma dedup_loop_set: "set (dedup_loop xs kept seen) \<subseteq> set xs \<union> set kept"
  by (induction xs kept seen rule: dedup_loop.induct) (auto simp: Let_def)

lemma deduplicate_set: "set (deduplicate xs) \<subseteq> set xs"
  using dedup_loop_set [of xs "[]" "[]"] by (auto simp: deduplicate_def)

lemma dedup_loop_subseq: "\<exists>ys. dedup_loop xs kept seen = kept @ ys \<and> subseq ys xs"
proof (induction xs kept seen rule: dedup_loop.induct)
  case (1 kept seen)
  then show ?case by simp
next
  case (2 c score rest kept seen)
  show ?case
  proof (cases "list_ex (\<lambda>s. 7 / 10 < text_overlap (text c) s) seen")
    case True
    with 2 obtain ys where "dedup_loop rest kept seen = kept @ ys" "subseq ys rest" by auto
    with True show ?thesis by (auto simp: Let_def)
  next
    case False
    with 2 obtain ys where
      "dedup_loop rest (kept @ [(c, score)]) (seen @ [text c]) = (kept @ [(c, score)]) @ ys"
      "subseq ys rest" by (auto simp: Let_def)
    with False show ?thesis by (auto simp: Let_def intro!: exI [of _ "(c, score) # ys"])
  qed
qed

lemma deduplicate_subseq: "subseq (deduplicate xs) xs"
  using dedup_loop_subseq [of xs "[]" "[]"] by (auto simp: deduplicate_def)

lemma dedup_loop_pairwise:
  "seen = map (\<lambda>x. text (fst x)) kept \<Longrightarrow> sorted_wrt (\<lambda>x y. \<not> near_dup y x) kept
   \<Longrightarrow> sorted_wrt (\<lambda>x y. \<not> near_dup y x) (dedup_loop xs kept seen)"
proof (induction xs kept seen rule: dedup_loop.induct)
  case (1 kept seen)
  then show ?case by simp
next
  case (2 c score rest kept seen)
  show ?case
  proof (cases "list_ex (\<lambda>s. 7 / 10 < text_overlap (text c) s) seen")
    case True
    with 2 show ?thesis by (simp add: Let_def)
  next
    case False
    with 2(3) have "\<forall>x\<in>set kept. \<not> near_dup (c, score) x"
      by (auto simp: list_ex_iff near_dup_def)
    with 2(4) have "sorted_wrt (\<lambda>x y. \<not> near_dup y x) (kept @ [(c, score)])"
      by (simp add: sorted_wrt_append)
    with 2 False show ?thesis by (simp add: Let_def)
  qed
qed

lemma deduplicate_pairwise: "sorted_wrt (\<lambda>x y. \<not> near_dup y x) (deduplicate xs)"
proof (cases "length xs \<le> 1")
  case True
  then have "xs = [] \<or> (\<exists>x. xs = [x])" by (cases xs) auto
  with True show ?thesis by (auto simp: deduplicate_def)
next
  case False
  then show ?thesis using dedup_loop_pairwise [of "[]" "[]" xs] by (simp add: deduplicate_def)
qed

lemma dedup_loop_keeps_first:
  "set seen \<subseteq> (\<lambda>y. text (fst y)) ` (set prev) \<Longrightarrow>
   \<forall>y\<in>set prev \<union> set ys. \<not> near_dup x y \<Longrightarrow>
   x \<in> set (dedup_loop (ys @ x # zs) kept seen)"
proof (induction ys arbitrary: kept seen prev)
  case Nil
  obtain c score where x: "x = (c, score)" by (cases x)
  from Nil have "\<not> list_ex (\<lambda>s. 7 / 10 < text_overlap (text c) s) seen"
    by (auto simp: list_ex_iff near_dup_def x)
  moreover obtain ws where "dedup_loop zs (kept @ [(c, score)]) (seen @ [text c]) = (kept @ [(c, score)]) @ ws"
    using dedup_loop_subseq by blast
  ultimately show ?case by (simp add: x Let_def)
next
  case (Cons y ys)
  obtain c score where y: "y = (c, score)" by (cases y)
  have a: "x \<in> set (dedup_loop (ys @ x # zs) kept seen)"
    using Cons.IH [of seen prev kept] Cons.prems by auto
  have "set (seen @ [text c]) \<subseteq> (\<lambda>y. text (fst y)) ` (set (y # prev))"
    using Cons.prems(1) by (auto simp: y)
  moreover have "\<forall>w\<in>set (y # prev) \<union> set ys. \<not> near_dup x w" using Cons.prems(2) by auto
  ultimately have b: "x \<in> set (dedup_loop (ys @ x # zs) (kept @ [(c, score)]) (seen @ [text c]))"
    using Cons.IH [of "seen @ [text c]" "y # prev" "kept @ [(c, score)]"] by blast
  show ?case using a b by (simp add: y Let_def)
qed

lemma deduplicate_keeps_first:
  assumes "\<forall>y\<in>set ys. \<not> near_dup x y"
  shows "x \<in> set (deduplicate (ys @ x # zs))"
proof (cases "length (ys @ x # zs) \<le> 1")
  case True
  then show ?thesis by (simp add: deduplicate_def)
next
  case False
  then show ?thesis
    using dedup_loop_keeps_first [of "[]" "[]" ys x zs "[]"] assms by (simp add: deduplicate_def)
qed

section \<open>The retriever\<close>

text \<open>
  Claim C4. Every pair of a chunk and a score that \<open>retrieve\<close> returns has a score of at
  least the similarity threshold of the retriever, for every query, store, embedding
  function and index search.
\<close>

theorem retrieve_threshold:
  "\<forall>(c, score) \<in> set (fst (retrieve encode index_search r st query)). threshold r \<le> score"
proof -
  have "fst (retrieve encode index_search r st query)
          = deduplicate (filter (\<lambda>(c, score). threshold r \<le> score)
                 (fst (snd (search index_search st (encode [query] 1) (top_k r)))))"
    by (simp add: retrieve_def Let_def split: prod.splits)
  then show ?thesis
    using deduplicate_set
      [of "filter (\<lambda>(c, score). threshold r \<le> score)
             (fst (snd (search index_search st (encode [query] 1) (top_k r))))"]
    by auto
qed

theorem retrieve_threshold_witness:
  "fst (retrieve length_encode (table_search sample_table) sample_retriever sample_store
          ''Is wear and tear covered?'')
     = [(sample_chunks ! 0, 9 / 10), (sample_chunks ! 2, 1 / 2)]
   \<and> threshold sample_retriever \<le> 9 / 10 \<and> threshold sample_retriever \<le> 1 / 2"
proof -
  have e: "fst (retrieve length_encode (table_search sample_table) sample_retriever sample_store
          ''Is wear and tear covered?'')
     = [(sample_chunks ! 0, 9 / 10), (sample_chunks ! 2, 1 / 2)]"
    by code_simp
  from retrieve_threshold [of length_encode "table_search sample_table" sample_retriever
      sample_store "''Is wear and tear covered?''"] e
  show ?thesis by simp
qed

text \<open>
  Claim C5. \<open>retrieve\<close> returns the deduplication of the results that pass the
  threshold. No two results at different positions of what it returns have texts whose
  word-level Jaccard overlap is above 0.7. The deduplication keeps the order: what it
  returns is a subsequence of the filtered list. It is greedy: a filtered result whose
  text has an overlap of at most 0.7 with the text of every result before it in the
  filtered list is kept, so the first of a group of near-duplicates is the one retained.
\<close>

theorem retrieve_deduplicated:
  assumes "fl = filter (\<lambda>(c, score). threshold r \<le> score)
                  (fst (snd (search index_search st (encode [query] 1) (top_k r))))"
    and "res = fst (retrieve encode index_search r st query)"
  shows "res = deduplicate fl
    \<and> (\<forall>i j. i < length res \<and> j < length res \<and> i \<noteq> j \<longrightarrow>
          text_overlap (text (fst (res ! i))) (text (fst (res ! j))) \<le> 7 / 10)
    \<and> subseq res fl
    \<and> (\<forall>ys x zs. fl = ys @ x # zs
          \<and> (\<forall>y\<in>set ys. text_overlap (text (fst x)) (text (fst y)) \<le> 7 / 10)
          \<longrightarrow> x \<in> set res)"
proof -
  have r: "res = deduplicate fl"
    using assms by (simp add: retrieve_def Let_def split: prod.splits)
  have sw: "sorted_wrt (\<lambda>x y. \<not> near_dup y x) res"
    unfolding r by (rule deduplicate_pairwise)
  have p: "text_overlap (text (fst (res ! i))) (text (fst (res ! j))) \<le> 7 / 10"
    if "i < length res" "j < length res" "i \<noteq> j" for i j
  proof (cases "i < j")
    case True
    with sw that have "\<not> near_dup (res ! j) (res ! i)" by (simp add: sorted_wrt_iff_nth_less)
    then show ?thesis by (simp add: near_dup_def text_overlap_sym [of "text (fst (res ! i))"])
  next
    case False
    with that have "j < i" by simp
    with sw that have "\<not> near_dup (res ! i) (res ! j)" by (simp add: sorted_wrt_iff_nth_less)
    then show ?thesis by (simp add: near_dup_def)
  qed
  have k: "x \<in> set res"
    if "fl = ys @ x # zs" "\<forall>y\<in>set ys. text_overlap (text (fst x)) (text (fst y)) \<le> 7 / 10"
    for ys x zs
    unfolding r that(1)
    by (rule deduplicate_keeps_first) (use that(2) in \<open>auto simp: near_dup_def\<close>)
  show ?thesis using r p k deduplicate_subseq [of fl] by blast
qed

theorem retrieve_deduplicated_witness:
  "fst (retrieve length_encode (table_search sample_table) sample_retriever sample_store
          ''Is wear and tear covered?'')
     = [(sample_chunks ! 0, 9 / 10), (sample_chunks ! 2, 1 / 2)]
   \<and> filter (\<lambda>(c, score). threshold sample_retriever \<le> score)
        (fst (snd (search (table_search sample_table) sample_store
           (length_encode [''Is wear and tear covered?''] 1) (top_k sample_retriever))))
     = [(sample_chunks ! 0, 9 / 10), (sample_chunks ! 1, 8 / 10), (sample_chunks ! 2, 1 / 2)]
   \<and> text_overlap (text (sample_chunks ! 0)) (text (sample_chunks ! 2)) \<le> 7 / 10
   \<and> \<not> text_overlap (text (sample_chunks ! 1)) (text (sample_chunks ! 0)) \<le> 7 / 10"
proof -
  let ?res = "fst (retrieve length_encode (table_search sample_table) sample_retriever
                 sample_store ''Is wear and tear covered?'')"
  let ?fl = "filter (\<lambda>(c, score). threshold sample_retriever \<le> score)
        (fst (snd (search (table_search sample_table) sample_store
           (length_encode [''Is wear and tear covered?''] 1) (top_k sample_retriever))))"
  have e: "?res = [(sample_chunks ! 0, 9 / 10), (sample_chunks ! 2, 1 / 2)]"
    by code_simp
  have f: "?fl = [(sample_chunks ! 0, 9 / 10), (sample_chunks ! 1, 8 / 10), (sample_chunks ! 2, 1 / 2)]"
    by code_simp
  have d: "\<not> text_overlap (text (sample_chunks ! 1)) (text (sample_chunks ! 0)) \<le> 7 / 10"
    by code_simp
  from retrieve_deduplicated [OF refl refl, where r = sample_retriever
      and index_search = "table_search sample_table" and st = sample_store
      and encode = length_encode and query = "''Is wear and tear covered?''"]
  have "\<forall>i j. i < length ?res \<and> j < length ?res \<and> i \<noteq> j \<longrightarrow>
          text_overlap (text (fst (?res ! i))) (text (fst (?res ! j))) \<le> 7 / 10"
    by blast
  then have "0 < length ?res \<and> 1 < length ?res \<and> (0::nat) \<noteq> 1 \<longrightarrow>
      text_overlap (text (fst (?res ! 0))) (text (fst (?res ! 1))) \<le> 7 / 10"
    by blast
  then have "text_overlap (text (sample_chunks ! 0)) (text (sample_chunks ! 2)) \<le> 7 / 10"
    unfolding e by simp
  with e f d show ?thesis by blast
qed

section \<open>Lemmas on chunking\<close>

lemma estimate_tokens_append: "estimate_tokens a \<le> estimate_tokens (a @ b)"
  by (simp add: estimate_tokens_def zdiv_mono1)

lemma join_nonempty:
  "xs \<noteq> [] \<Longrightarrow> [] \<notin> set xs \<Longrightarrow> join sep xs \<noteq> []"
  by (induction sep xs rule: join.induct) auto

lemma join_suffix_last: "xs \<noteq> [] \<Longrightarrow> suffix (last xs) (join sep xs)"
proof (induction sep xs rule: join.induct)
  case (3 sep x y ys)
  then have "suffix (last (y # ys)) (join sep (y # ys))" by simp
  then obtain zs where "join sep (y # ys) = zs @ last (y # ys)" by (auto simp: suffix_def)
  then have "join sep (x # y # ys) = (x @ sep @ zs) @ last (x # y # ys)" by simp
  then show ?case unfolding suffix_def by blast
qed simp_all

subsection \<open>Sentences\<close>

lemma last_dropWhile_eq: "dropWhile P xs \<noteq> [] \<Longrightarrow> last (dropWhile P xs) = last xs"
  by (induction xs) (auto split: if_splits)

lemma dropWhile_nonempty_last: "xs \<noteq> [] \<Longrightarrow> \<not> P (last xs) \<Longrightarrow> dropWhile P xs \<noteq> []"
  by (induction xs) (auto split: if_splits)

lemma split_sentences_from_nonempty_list: "split_sentences_from cur s \<noteq> []"
  by (induction cur s rule: split_sentences_from.induct) auto

lemma split_sentences_from_no_empty:
  "(s = [] \<longrightarrow> cur \<noteq> []) \<Longrightarrow> (s \<noteq> [] \<longrightarrow> \<not> is_space (last s)) \<Longrightarrow>
   (cur = [] \<longrightarrow> s \<noteq> [] \<and> \<not> is_space (hd s)) \<Longrightarrow>
   [] \<notin> set (split_sentences_from cur s)"
proof (induction cur s rule: split_sentences_from.induct)
  case (1 cur)
  then show ?case by simp
next
  case (2 cur c cs)
  show ?case
  proof (cases "is_space c \<and> cur \<noteq> [] \<and> last cur \<in> set ''.!?''")
    case True
    from True 2(4) have cs: "cs \<noteq> []" by auto
    with 2(4) have l: "\<not> is_space (last cs)" by simp
    have d: "dropWhile is_space cs \<noteq> []"
      using cs l by (rule dropWhile_nonempty_last)
    have "last (dropWhile is_space cs) = last cs"
      using d by (rule last_dropWhile_eq)
    with l d have "[] \<notin> set (split_sentences_from [] (dropWhile is_space cs))"
      using 2(1) [OF True] hd_dropWhile [OF d] by simp
    with True show ?thesis by auto
  next
    case False
    have "[] \<notin> set (split_sentences_from (cur @ [c]) cs)"
      using 2(2) [OF False] 2(4) by (cases cs) auto
    with False show ?thesis by auto
  qed
qed

lemma split_sentences_no_empty:
  "s \<noteq> [] \<Longrightarrow> \<not> is_space (hd s) \<Longrightarrow> \<not> is_space (last s) \<Longrightarrow> [] \<notin> set (split_sentences s)"
  unfolding split_sentences_def by (rule split_sentences_from_no_empty) auto

lemma strip_ends:
  assumes "strip s \<noteq> []"
  shows "\<not> is_space (hd (strip s)) \<and> \<not> is_space (last (strip s))"
proof -
  let ?l = "dropWhile is_space s"
  let ?r = "dropWhile is_space (rev ?l)"
  have s: "strip s = rev ?r" by (simp add: strip_def rstrip_def lstrip_def)
  from assms s have r: "?r \<noteq> []" by simp
  then have l: "?l \<noteq> []" by (cases "?l") auto
  have "last (strip s) = hd ?r" using r by (simp add: s last_rev)
  moreover have "\<not> is_space (hd ?r)" using hd_dropWhile [OF r] .
  moreover have "hd (strip s) = last ?r" using r by (simp add: s hd_rev)
  moreover have "last ?r = last (rev ?l)"
    using r by (rule last_dropWhile_eq)
  moreover have "last (rev ?l) = hd ?l" using l by (simp add: last_rev)
  moreover have "\<not> is_space (hd ?l)" using hd_dropWhile [OF l] .
  ultimately show ?thesis by simp
qed

subsection \<open>The loop over the sentences\<close>

lemma overlap_loop_set:
  "set (overlap_loop co rs tok acc) \<subseteq> set rs \<union> set acc"
  by (induction co rs tok acc rule: overlap_loop.induct) (auto simp: Let_def)

lemma sub_chunk_loop_Cons:
  "sub_chunk_loop cs co mn (s # ss) chunks cur tok =
     (if cs < tok + estimate_tokens s \<and> cur \<noteq> []
      then sub_chunk_loop cs co mn ss
             (if mn \<le> estimate_tokens (join '' '' cur) then chunks @ [join '' '' cur] else chunks)
             (overlap_loop co (rev cur) 0 [] @ [s])
             (sum_list (map estimate_tokens (overlap_loop co (rev cur) 0 [])) + estimate_tokens s)
      else sub_chunk_loop cs co mn ss chunks (cur @ [s]) (tok + estimate_tokens s))"
  by (simp add: Let_def)

declare sub_chunk_loop.simps(2) [simp del]

lemma sub_chunk_loop_floor:
  "\<forall>c\<in>set chunks. mn \<le> estimate_tokens c \<Longrightarrow>
   \<forall>c\<in>set (fst (sub_chunk_loop cs co mn ss chunks cur tok)). mn \<le> estimate_tokens c"
proof (induction ss arbitrary: chunks cur tok)
  case Nil
  then show ?case by simp
next
  case (Cons s ss)
  show ?case
  proof (cases "cs < tok + estimate_tokens s \<and> cur \<noteq> []")
    case True
    let ?chunks = "if mn \<le> estimate_tokens (join '' '' cur) then chunks @ [join '' '' cur]
                   else chunks"
    let ?cur = "overlap_loop co (rev cur) 0 [] @ [s]"
    let ?tok = "sum_list (map estimate_tokens (overlap_loop co (rev cur) 0 [])) + estimate_tokens s"
    have e: "sub_chunk_loop cs co mn (s # ss) chunks cur tok
             = sub_chunk_loop cs co mn ss ?chunks ?cur ?tok"
      by (subst sub_chunk_loop_Cons) (rule if_P [OF True])
    have "\<forall>c\<in>set ?chunks. mn \<le> estimate_tokens c" using Cons.prems by auto
    from Cons.IH [OF this, of ?cur ?tok] show ?thesis unfolding e .
  next
    case False
    have e: "sub_chunk_loop cs co mn (s # ss) chunks cur tok
             = sub_chunk_loop cs co mn ss chunks (cur @ [s]) (tok + estimate_tokens s)"
      by (subst sub_chunk_loop_Cons) (rule if_not_P [OF False])
    from Cons.IH [OF Cons.prems, of "cur @ [s]" "tok + estimate_tokens s"]
    show ?thesis unfolding e .
  qed
qed

lemma sub_chunk_loop_no_empty:
  "[] \<notin> set ss \<Longrightarrow> [] \<notin> set cur \<Longrightarrow> [] \<notin> set chunks \<Longrightarrow>
   [] \<notin> set (fst (sub_chunk_loop cs co mn ss chunks cur tok))
   \<and> [] \<notin> set (snd (sub_chunk_loop cs co mn ss chunks cur tok))"
proof (induction ss arbitrary: chunks cur tok)
  case Nil
  then show ?case by simp
next
  case (Cons s ss)
  have c: "[] \<notin> set ss" using Cons.prems by simp
  show ?case
  proof (cases "cs < tok + estimate_tokens s \<and> cur \<noteq> []")
    case True
    let ?chunks = "if mn \<le> estimate_tokens (join '' '' cur) then chunks @ [join '' '' cur]
                   else chunks"
    let ?cur = "overlap_loop co (rev cur) 0 [] @ [s]"
    let ?tok = "sum_list (map estimate_tokens (overlap_loop co (rev cur) 0 [])) + estimate_tokens s"
    have e: "sub_chunk_loop cs co mn (s # ss) chunks cur tok
             = sub_chunk_loop cs co mn ss ?chunks ?cur ?tok"
      by (subst sub_chunk_loop_Cons) (rule if_P [OF True])
    have "join '' '' cur \<noteq> []" using Cons.prems True by (simp add: join_nonempty)
    then have a: "[] \<notin> set ?chunks" using Cons.prems by auto
    have b: "[] \<notin> set ?cur"
      using overlap_loop_set [of co "rev cur" 0 "[]"] Cons.prems by auto
    from Cons.IH [OF c b a, of ?tok] show ?thesis unfolding e .
  next
    case False
    have e: "sub_chunk_loop cs co mn (s # ss) chunks cur tok
             = sub_chunk_loop cs co mn ss chunks (cur @ [s]) (tok + estimate_tokens s)"
      by (subst sub_chunk_loop_Cons) (rule if_not_P [OF False])
    have b: "[] \<notin> set (cur @ [s])" using Cons.prems by auto
    from Cons.IH [OF c b Cons.prems(3), of "tok + estimate_tokens s"]
    show ?thesis unfolding e .
  qed
qed

lemma sub_chunk_loop_last:
  "ss \<noteq> [] \<Longrightarrow> snd (sub_chunk_loop cs co mn ss chunks cur tok) \<noteq> []
     \<and> last (snd (sub_chunk_loop cs co mn ss chunks cur tok)) = last ss"
proof (induction ss arbitrary: chunks cur tok)
  case Nil
  then show ?case by simp
next
  case (Cons s ss)
  have "\<exists>chunks' cur' tok'. sub_chunk_loop cs co mn (s # ss) chunks cur tok
          = sub_chunk_loop cs co mn ss chunks' (cur' @ [s]) tok'"
  proof (cases "cs < tok + estimate_tokens s \<and> cur \<noteq> []")
    case True
    have "sub_chunk_loop cs co mn (s # ss) chunks cur tok
          = sub_chunk_loop cs co mn ss
             (if mn \<le> estimate_tokens (join '' '' cur) then chunks @ [join '' '' cur] else chunks)
             (overlap_loop co (rev cur) 0 [] @ [s])
             (sum_list (map estimate_tokens (overlap_loop co (rev cur) 0 [])) + estimate_tokens s)"
      by (subst sub_chunk_loop_Cons) (rule if_P [OF True])
    then show ?thesis by blast
  next
    case False
    have "sub_chunk_loop cs co mn (s # ss) chunks cur tok
             = sub_chunk_loop cs co mn ss chunks (cur @ [s]) (tok + estimate_tokens s)"
      by (subst sub_chunk_loop_Cons) (rule if_not_P [OF False])
    then show ?thesis by blast
  qed
  then obtain chunks' cur' tok' where
    e: "sub_chunk_loop cs co mn (s # ss) chunks cur tok
          = sub_chunk_loop cs co mn ss chunks' (cur' @ [s]) tok'"
    by blast
  show ?case
  proof (cases "ss = []")
    case True
    then show ?thesis unfolding e by simp
  next
    case False
    from Cons.IH [OF False, of chunks' "cur' @ [s]" tok'] False show ?thesis unfolding e by simp
  qed
qed

subsection \<open>\<open>_sub_chunk_text\<close>\<close>

lemma sub_chunk_text_long:
  assumes "\<not> estimate_tokens s \<le> cs"
    and "sub_chunk_loop cs co mn (split_sentences s) [] [] 0 = (chunks, cur)"
  shows "sub_chunk_text s cs co mn =
     (if cur = [] then chunks
      else if mn \<le> estimate_tokens (join '' '' cur) \<or> chunks = []
        then chunks @ [join '' '' cur]
      else butlast chunks @ [last chunks @ '' '' @ join '' '' cur])"
  using assms by (simp add: sub_chunk_text_def Let_def)

lemma sub_chunk_text_floor:
  assumes c: "c \<in> set (sub_chunk_text s cs co mn)"
  shows "mn \<le> estimate_tokens c \<or> length (sub_chunk_text s cs co mn) = 1"
proof (cases "estimate_tokens s \<le> cs")
  case True
  then show ?thesis using c by (auto simp: sub_chunk_text_def split: if_splits)
next
  case False
  obtain chunks cur where l: "sub_chunk_loop cs co mn (split_sentences s) [] [] 0 = (chunks, cur)"
    by (cases "sub_chunk_loop cs co mn (split_sentences s) [] [] 0")
  note r = sub_chunk_text_long [OF False l]
  have f: "\<forall>x\<in>set chunks. mn \<le> estimate_tokens x"
    using sub_chunk_loop_floor [of "[]" mn cs co "split_sentences s" "[]" 0] l by simp
  consider (a) "cur = []"
    | (b) "cur \<noteq> []" "mn \<le> estimate_tokens (join '' '' cur)"
    | (c) "cur \<noteq> []" "chunks = []"
    | (d) "cur \<noteq> []" "\<not> mn \<le> estimate_tokens (join '' '' cur)" "chunks \<noteq> []"
    by blast
  then show ?thesis
  proof cases
    case a
    with r c f show ?thesis by simp
  next
    case b
    with r c f show ?thesis by auto
  next
    case c
    with r show ?thesis by simp
  next
    case d
    have "mn \<le> estimate_tokens (last chunks)" using f d(3) by simp
    then have m: "mn \<le> estimate_tokens (last chunks @ '' '' @ join '' '' cur)"
      using estimate_tokens_append [of "last chunks" "'' '' @ join '' '' cur"] by linarith
    have b: "x \<in> set (butlast chunks) \<Longrightarrow> mn \<le> estimate_tokens x" for x
      using f by (auto dest: in_set_butlastD)
    from d r have "sub_chunk_text s cs co mn = butlast chunks @ [last chunks @ '' '' @ join '' '' cur]"
      by simp
    with c m b show ?thesis by auto
  qed
qed

lemma sub_chunk_text_last:
  assumes "cs < estimate_tokens s"
  shows "sub_chunk_text s cs co mn \<noteq> []
      \<and> suffix (last (split_sentences s)) (last (sub_chunk_text s cs co mn))"
proof -
  obtain chunks cur where l: "sub_chunk_loop cs co mn (split_sentences s) [] [] 0 = (chunks, cur)"
    by (cases "sub_chunk_loop cs co mn (split_sentences s) [] [] 0")
  have n: "\<not> estimate_tokens s \<le> cs" using assms by simp
  note r = sub_chunk_text_long [OF n l]
  have ne: "split_sentences s \<noteq> []"
    by (simp add: split_sentences_def split_sentences_from_nonempty_list)
  from sub_chunk_loop_last [OF ne, of cs co mn "[]" "[]" 0] l
  have cur: "cur \<noteq> []" "last cur = last (split_sentences s)" by simp_all
  have j: "suffix (last (split_sentences s)) (join '' '' cur)"
    using join_suffix_last [OF cur(1), of "'' ''"] cur(2) by simp
  from j obtain zs where zs: "join '' '' cur = zs @ last (split_sentences s)"
    by (auto simp: suffix_def)
  have "last chunks @ '' '' @ join '' '' cur = (last chunks @ '' '' @ zs) @ last (split_sentences s)"
    by (simp add: zs)
  then have j2: "suffix (last (split_sentences s)) (last chunks @ '' '' @ join '' '' cur)"
    unfolding suffix_def by blast
  show ?thesis
  proof (cases "mn \<le> estimate_tokens (join '' '' cur) \<or> chunks = []")
    case True
    with r cur have "sub_chunk_text s cs co mn = chunks @ [join '' '' cur]" by simp
    with j show ?thesis by simp
  next
    case False
    with r cur have "sub_chunk_text s cs co mn
        = butlast chunks @ [last chunks @ '' '' @ join '' '' cur]" by simp
    with j2 show ?thesis by simp
  qed
qed

lemma sub_chunk_text_no_empty:
  assumes "s \<noteq> []" "\<not> is_space (hd s)" "\<not> is_space (last s)"
  shows "[] \<notin> set (sub_chunk_text s cs co mn)"
proof (cases "estimate_tokens s \<le> cs")
  case True
  then show ?thesis using assms by (auto simp: sub_chunk_text_def)
next
  case False
  obtain chunks cur where l: "sub_chunk_loop cs co mn (split_sentences s) [] [] 0 = (chunks, cur)"
    by (cases "sub_chunk_loop cs co mn (split_sentences s) [] [] 0")
  note r = sub_chunk_text_long [OF False l]
  have "[] \<notin> set (split_sentences s)" using assms by (rule split_sentences_no_empty)
  from sub_chunk_loop_no_empty [OF this, of "[]" "[]" cs co mn 0] l
  have e: "[] \<notin> set chunks" "[] \<notin> set cur" by simp_all
  have j: "cur \<noteq> [] \<Longrightarrow> join '' '' cur \<noteq> []" using e by (simp add: join_nonempty)
  have b: "[] \<notin> set (butlast chunks)" using e by (auto dest: in_set_butlastD)
  show ?thesis
  proof (cases "cur = []")
    case True
    with r e show ?thesis by simp
  next
    case False
    with j have "join '' '' cur \<noteq> []" by simp
    with r e b False show ?thesis by auto
  qed
qed

subsection \<open>The loops of \<open>chunk_pages\<close>\<close>

lemma emit_chunks_texts:
  "map text (fst (emit_chunks dn pg sl cl hp xr subs (all_chunks, cid))) = map text all_chunks @ subs"
  by (induction subs arbitrary: all_chunks cid) simp_all

lemma emit_chunks_numbered:
  "numbered (all_chunks, cid, hs) \<Longrightarrow>
   numbered (fst (emit_chunks dn pg sl cl hp xr subs (all_chunks, cid)),
             snd (emit_chunks dn pg sl cl hp xr subs (all_chunks, cid)), hs')"
proof (induction subs arbitrary: all_chunks cid)
  case Nil
  then show ?case by (simp add: numbered_def)
next
  case (Cons t subs)
  let ?c = "\<lparr>text = t, doc_name = dn, page = pg, section = sl, clause_number = cl,
            heading_path = hp, cross_references = xr, chunk_id = cid\<rparr>"
  from Cons.prems have "numbered (all_chunks @ [?c], cid + 1, hs)"
    by (simp add: numbered_def)
  from Cons.IH [OF this] show ?case by simp
qed

lemma chunk_section_empty:
  "strip (join [CHR 0x0A] (lines sc)) = [] \<Longrightarrow> chunk_section kws cs co mn pg st sc = st"
  by (cases st) (simp add: chunk_section_def Let_def)

lemma chunk_section_emit:
  assumes "strip (join [CHR 0x0A] (lines sc)) \<noteq> []"
  shows "\<exists>sl hp xr hs'.
     chunk_section kws cs co mn pg (all_chunks, cid, hs) sc =
       (fst (emit_chunks (page_doc_name pg) (page_num pg) sl (clause sc) hp xr
               (sub_chunk_text (strip (join [CHR 0x0A] (lines sc))) cs co mn) (all_chunks, cid)),
        snd (emit_chunks (page_doc_name pg) (page_num pg) sl (clause sc) hp xr
               (sub_chunk_text (strip (join [CHR 0x0A] (lines sc))) cs co mn) (all_chunks, cid)),
        hs')"
  unfolding chunk_section_def Let_def using assms
  by (simp add: case_prod_beta split del: if_split) blast

lemma chunk_section_texts:
  "map text (fst (chunk_section kws cs co mn pg st sc))
     = map text (fst st) @ section_chunks cs co mn sc"
proof (cases "strip (join [CHR 0x0A] (lines sc)) = []")
  case True
  then show ?thesis by (simp add: chunk_section_empty section_chunks_def)
next
  case False
  obtain all_chunks cid hs where st: "st = (all_chunks, cid, hs)" by (cases st)
  from chunk_section_emit [OF False, of kws cs co mn pg all_chunks cid hs] False
  show ?thesis by (auto simp: st emit_chunks_texts section_chunks_def)
qed

lemma chunk_section_numbered:
  assumes n: "numbered st"
  shows "numbered (chunk_section kws cs co mn pg st sc)"
proof (cases "strip (join [CHR 0x0A] (lines sc)) = []")
  case True
  with n show ?thesis by (simp add: chunk_section_empty)
next
  case False
  obtain all_chunks cid hs where st: "st = (all_chunks, cid, hs)" by (cases st)
  from n have "numbered (all_chunks, cid, hs)" by (simp add: st)
  from emit_chunks_numbered [OF this] chunk_section_emit [OF False, of kws cs co mn pg all_chunks cid hs]
  show ?thesis by (auto simp: st)
qed

lemma foldl_sections_texts:
  "map text (fst (foldl (\<lambda>st sc. chunk_section kws cs co mn pg st sc) st secs))
     = map text (fst st) @ concat (map (section_chunks cs co mn) secs)"
  by (induction secs arbitrary: st) (simp_all add: chunk_section_texts)

lemma foldl_sections_numbered:
  "numbered st \<Longrightarrow> numbered (foldl (\<lambda>st sc. chunk_section kws cs co mn pg st sc) st secs)"
  by (induction secs arbitrary: st) (simp_all add: chunk_section_numbered)

lemma chunk_page_texts:
  "map text (fst (chunk_page kws cs co mn st pg))
     = map text (fst st)
       @ concat (map (section_chunks cs co mn) (split_into_sections (page_text pg)))"
  by (cases st) (simp add: chunk_page_def Let_def foldl_sections_texts)

lemma chunk_page_numbered: "numbered st \<Longrightarrow> numbered (chunk_page kws cs co mn st pg)"
proof -
  assume n: "numbered st"
  obtain all_chunks cid hs where st: "st = (all_chunks, cid, hs)" by (cases st)
  from n have "numbered (all_chunks, cid, hs')" for hs' by (simp add: st numbered_def)
  then show ?thesis by (simp add: chunk_page_def st Let_def foldl_sections_numbered)
qed

lemma foldl_pages_texts:
  "map text (fst (foldl (chunk_page kws cs co mn) st pages))
     = map text (fst st)
       @ concat (map (\<lambda>pg. concat (map (section_chunks cs co mn)
                                     (split_into_sections (page_text pg)))) pages)"
  by (induction pages arbitrary: st) (simp_all add: chunk_page_texts)

lemma foldl_pages_numbered:
  "numbered st \<Longrightarrow> numbered (foldl (chunk_page kws cs co mn) st pages)"
  by (induction pages arbitrary: st) (simp_all add: chunk_page_numbered)

lemma concat_section_chunks:
  "concat (map (section_chunks cs co mn) secs)
     = concat (map (\<lambda>t. sub_chunk_text t cs co mn)
         (filter (\<lambda>t. t \<noteq> []) (map (\<lambda>sc. strip (join [CHR 0x0A] (lines sc))) secs)))"
  by (induction secs) (simp_all add: section_chunks_def Let_def)

lemma chunk_pages_texts:
  "map text (chunk_pages kws pages cs co mn)
     = concat (map (\<lambda>t. sub_chunk_text t cs co mn) (section_texts pages))"
proof -
  have "concat (map (\<lambda>pg. concat (map (section_chunks cs co mn)
                                     (split_into_sections (page_text pg)))) pages)
        = concat (map (\<lambda>t. sub_chunk_text t cs co mn) (section_texts pages))"
    by (induction pages) (simp_all add: section_texts_def concat_section_chunks)
  then show ?thesis by (simp add: chunk_pages_def foldl_pages_texts)
qed

lemma chunk_pages_ids:
  "map chunk_id (chunk_pages kws pages cs co mn)
     = map int [0 ..< length (chunk_pages kws pages cs co mn)]"
proof -
  have "numbered ([], 0, Map.empty)" by (simp add: numbered_def)
  from foldl_pages_numbered [OF this] show ?thesis
    by (simp add: chunk_pages_def numbered_def)
qed

lemma section_texts_ends:
  "t \<in> set (section_texts pages) \<Longrightarrow> t \<noteq> [] \<and> \<not> is_space (hd t) \<and> \<not> is_space (last t)"
  using strip_ends by (auto simp: section_texts_def)

lemma chunk_pages_text_nonempty:
  "c \<in> set (chunk_pages kws pages cs co mn) \<Longrightarrow> text c \<noteq> []"
proof -
  assume "c \<in> set (chunk_pages kws pages cs co mn)"
  then have "text c \<in> set (map text (chunk_pages kws pages cs co mn))" by simp
  then obtain t where t: "t \<in> set (section_texts pages)" "text c \<in> set (sub_chunk_text t cs co mn)"
    unfolding chunk_pages_texts by auto
  from section_texts_ends [OF t(1)] have "[] \<notin> set (sub_chunk_text t cs co mn)"
    by (simp add: sub_chunk_text_no_empty)
  with t(2) show ?thesis by metis
qed

subsection \<open>No sentence is lost when the overlap reaches the minimum\<close>

lemma contains_sublist: "contains s t \<longleftrightarrow> sublist t s"
proof (induction s)
  case Nil
  then show ?case by simp
next
  case (Cons c cs)
  then show ?case by (cases t) (simp_all add: sublist_Cons_right)
qed

lemma sublist_in_right: "sublist x b \<Longrightarrow> sublist x (a @ b)"
  by (simp add: sublist_append)

lemma sublist_in_left: "sublist x a \<Longrightarrow> sublist x (a @ b)"
  by (simp add: sublist_append)

lemma sublist_join: "x \<in> set xs \<Longrightarrow> sublist x (join sep xs)"
proof (induction sep xs rule: join.induct)
  case (3 sep a b bs)
  show ?case
  proof (cases "x = a")
    case True
    then show ?thesis by (simp add: sublist_append_rightI)
  next
    case False
    with 3 have "sublist x (join sep (b # bs))" by simp
    then have "sublist x (a @ sep @ join sep (b # bs))"
      by (intro sublist_in_right)
    then show ?thesis by simp
  qed
qed simp_all

lemma estimate_tokens_nonneg: "0 \<le> estimate_tokens s"
  by (simp add: estimate_tokens_def)

lemma estimate_tokens_add:
  "estimate_tokens a + estimate_tokens b \<le> estimate_tokens (a @ b)"
  by (simp add: estimate_tokens_def)

lemma estimate_tokens_append_left: "estimate_tokens b \<le> estimate_tokens (a @ b)"
  by (simp add: estimate_tokens_def zdiv_mono1)

lemma sum_estimate_le_join:
  "sum_list (map estimate_tokens xs) \<le> estimate_tokens (join sep xs)"
proof (induction sep xs rule: join.induct)
  case (3 sep a b bs)
  have "estimate_tokens a + estimate_tokens (join sep (b # bs))
          \<le> estimate_tokens a + estimate_tokens (sep @ join sep (b # bs))"
    using estimate_tokens_append_left [of "join sep (b # bs)" sep] by simp
  also have "\<dots> \<le> estimate_tokens (a @ sep @ join sep (b # bs))"
    by (rule estimate_tokens_add)
  finally show ?case using 3 by simp
qed (simp_all add: estimate_tokens_def)

lemma sum_estimate_nonneg: "0 \<le> sum_list (map estimate_tokens xs)"
  by (induction xs) (simp_all add: estimate_tokens_nonneg)

lemma overlap_loop_all:
  "tok + sum_list (map estimate_tokens rs) < co \<Longrightarrow> overlap_loop co rs tok acc = rev rs @ acc"
proof (induction rs arbitrary: tok acc)
  case Nil
  then show ?case by simp
next
  case (Cons s rs)
  have "tok + estimate_tokens s < co"
    using Cons.prems sum_estimate_nonneg [of rs] by simp
  moreover have "(tok + estimate_tokens s) + sum_list (map estimate_tokens rs) < co"
    using Cons.prems by simp
  ultimately show ?case using Cons.IH [of "tok + estimate_tokens s" "s # acc"]
    by (simp add: Let_def)
qed

lemma overlap_keeps_small_chunk:
  assumes "estimate_tokens (join '' '' cur) < mn" "mn \<le> co"
  shows "overlap_loop co (rev cur) 0 [] = cur"
proof -
  have "sum_list (map estimate_tokens (rev cur)) = sum_list (map estimate_tokens cur)"
    by (simp add: rev_map [symmetric])
  also have "\<dots> \<le> estimate_tokens (join '' '' cur)" by (rule sum_estimate_le_join)
  finally have "0 + sum_list (map estimate_tokens (rev cur)) < co" using assms by simp
  from overlap_loop_all [OF this, of "[]"] show ?thesis by simp
qed

lemma sub_chunk_loop_covers:
  assumes "mn \<le> co"
  shows "\<forall>x\<in>P. x \<in> set cur \<or> (\<exists>c\<in>set chunks. sublist x c) \<Longrightarrow>
         \<forall>x\<in>P \<union> set ss.
            x \<in> set (snd (sub_chunk_loop cs co mn ss chunks cur tok))
            \<or> (\<exists>c\<in>set (fst (sub_chunk_loop cs co mn ss chunks cur tok)). sublist x c)"
proof (induction ss arbitrary: chunks cur tok P)
  case Nil
  then show ?case by simp
next
  case (Cons s ss)
  show ?case
  proof (cases "cs < tok + estimate_tokens s \<and> cur \<noteq> []")
    case True
    let ?chunks = "if mn \<le> estimate_tokens (join '' '' cur) then chunks @ [join '' '' cur]
                   else chunks"
    let ?cur = "overlap_loop co (rev cur) 0 [] @ [s]"
    let ?tok = "sum_list (map estimate_tokens (overlap_loop co (rev cur) 0 [])) + estimate_tokens s"
    have e: "sub_chunk_loop cs co mn (s # ss) chunks cur tok
             = sub_chunk_loop cs co mn ss ?chunks ?cur ?tok"
      by (subst sub_chunk_loop_Cons) (rule if_P [OF True])
    have "\<forall>x\<in>insert s P. x \<in> set ?cur \<or> (\<exists>c\<in>set ?chunks. sublist x c)"
    proof
      fix x assume x: "x \<in> insert s P"
      show "x \<in> set ?cur \<or> (\<exists>c\<in>set ?chunks. sublist x c)"
      proof (cases "x = s")
        case True
        then show ?thesis by simp
      next
        case False
        with x have "x \<in> P" by simp
        with Cons.prems have d: "x \<in> set cur \<or> (\<exists>c\<in>set chunks. sublist x c)" by blast
        show ?thesis
        proof (cases "mn \<le> estimate_tokens (join '' '' cur)")
          case True
          with d sublist_join [of x cur "'' ''"] show ?thesis by auto
        next
          case False
          then have "overlap_loop co (rev cur) 0 [] = cur"
            using overlap_keeps_small_chunk [of cur mn co] assms by simp
          with d False show ?thesis by auto
        qed
      qed
    qed
    from Cons.IH [OF this, of ?tok] show ?thesis unfolding e by simp
  next
    case False
    have e: "sub_chunk_loop cs co mn (s # ss) chunks cur tok
             = sub_chunk_loop cs co mn ss chunks (cur @ [s]) (tok + estimate_tokens s)"
      by (subst sub_chunk_loop_Cons) (rule if_not_P [OF False])
    have "\<forall>x\<in>insert s P. x \<in> set (cur @ [s]) \<or> (\<exists>c\<in>set chunks. sublist x c)"
      using Cons.prems by auto
    from Cons.IH [OF this, of "tok + estimate_tokens s"] show ?thesis unfolding e by simp
  qed
qed

lemma sublist_split_sentences_from:
  "x \<in> set (split_sentences_from cur s) \<Longrightarrow> sublist x (cur @ s)"
proof (induction cur s rule: split_sentences_from.induct)
  case (1 cur)
  then show ?case by simp
next
  case (2 cur c cs)
  show ?case
  proof (cases "is_space c \<and> cur \<noteq> [] \<and> last cur \<in> set ''.!?''")
    case True
    with 2(3) have "x = cur \<or> x \<in> set (split_sentences_from [] (dropWhile is_space cs))"
      by auto
    then show ?thesis
    proof
      assume "x = cur"
      then show ?thesis by (simp add: sublist_append_rightI)
    next
      assume "x \<in> set (split_sentences_from [] (dropWhile is_space cs))"
      with 2(1) [OF True] have "sublist x (dropWhile is_space cs)" by simp
      then have "sublist x (takeWhile is_space cs @ dropWhile is_space cs)"
        by (rule sublist_in_right)
      then have "sublist x cs" by simp
      then have "sublist x ((cur @ [c]) @ cs)" by (rule sublist_in_right)
      then show ?thesis by simp
    qed
  next
    case False
    with 2(3) have "x \<in> set (split_sentences_from (cur @ [c]) cs)" by auto
    with 2(2) [OF False] show ?thesis by simp
  qed
qed

lemma sublist_split_sentences: "x \<in> set (split_sentences s) \<Longrightarrow> sublist x s"
  using sublist_split_sentences_from [of x "[]" s] by (simp add: split_sentences_def)

lemma sub_chunk_text_short:
  "estimate_tokens s \<le> cs \<Longrightarrow> strip s \<noteq> [] \<Longrightarrow> sub_chunk_text s cs co mn = [s]"
  by (simp add: sub_chunk_text_def)

lemma sub_chunk_text_covers:
  assumes "mn \<le> co" "strip s \<noteq> []" "x \<in> set (split_sentences s)"
  shows "\<exists>c\<in>set (sub_chunk_text s cs co mn). contains c x"
proof (cases "estimate_tokens s \<le> cs")
  case True
  with assms show ?thesis
    by (simp add: sub_chunk_text_short contains_sublist sublist_split_sentences)
next
  case False
  obtain chunks cur where l: "sub_chunk_loop cs co mn (split_sentences s) [] [] 0 = (chunks, cur)"
    by (cases "sub_chunk_loop cs co mn (split_sentences s) [] [] 0")
  note r = sub_chunk_text_long [OF False l]
  have "\<forall>x\<in>{} \<union> set (split_sentences s).
            x \<in> set (snd (sub_chunk_loop cs co mn (split_sentences s) [] [] 0))
            \<or> (\<exists>c\<in>set (fst (sub_chunk_loop cs co mn (split_sentences s) [] [] 0)). sublist x c)"
    by (rule sub_chunk_loop_covers [OF assms(1)]) simp
  with assms(3) l have d: "x \<in> set cur \<or> (\<exists>c\<in>set chunks. sublist x c)" by simp
  have ne: "split_sentences s \<noteq> []"
    by (simp add: split_sentences_def split_sentences_from_nonempty_list)
  from sub_chunk_loop_last [OF ne, of cs co mn "[]" "[]" 0] l have cur: "cur \<noteq> []" by simp
  let ?rem = "join '' '' cur"
  show ?thesis
  proof (cases "mn \<le> estimate_tokens ?rem \<or> chunks = []")
    case True
    with r cur have e: "sub_chunk_text s cs co mn = chunks @ [?rem]" by simp
    from d sublist_join [of x cur "'' ''"] show ?thesis
      unfolding e by (auto simp: contains_sublist)
  next
    case False
    then have c: "chunks \<noteq> []" by simp
    with r cur False have e: "sub_chunk_text s cs co mn
        = butlast chunks @ [last chunks @ '' '' @ ?rem]" by simp
    from d show ?thesis
    proof
      assume "x \<in> set cur"
      then have "sublist x ?rem" by (rule sublist_join)
      then have "sublist x ((last chunks @ '' '') @ ?rem)" by (rule sublist_in_right)
      then show ?thesis unfolding e by (simp add: contains_sublist)
    next
      assume "\<exists>c\<in>set chunks. sublist x c"
      then obtain k where k: "k \<in> set chunks" "sublist x k" by blast
      from k(1) c have "k \<in> set (butlast chunks) \<or> k = last chunks"
        by (metis append_butlast_last_id in_set_conv_decomp set_ConsD rotate1.simps(2) set_rotate1)
      then show ?thesis
      proof
        assume "k \<in> set (butlast chunks)"
        with k(2) show ?thesis unfolding e by (auto simp: contains_sublist)
      next
        assume "k = last chunks"
        with k(2) have "sublist x (last chunks @ ('' '' @ ?rem))"
          by (simp add: sublist_in_left)
        then show ?thesis unfolding e by (simp add: contains_sublist)
      qed
    qed
  qed
qed

lemma section_texts_strip:
  assumes "t \<in> set (section_texts pages)"
  shows "strip t \<noteq> []"
proof -
  from section_texts_ends [OF assms] have t: "t \<noteq> []" "\<not> is_space (hd t)" "\<not> is_space (last t)"
    by simp_all
  then have l: "dropWhile is_space t = t" by (cases t) simp_all
  have "rev t \<noteq> []" "\<not> is_space (last (rev t))" using t by (simp_all add: last_rev)
  then have "dropWhile is_space (rev t) \<noteq> []" by (rule dropWhile_nonempty_last)
  then show ?thesis by (simp add: strip_def lstrip_def rstrip_def l)
qed

section \<open>The chunker\<close>

text \<open>
  Claim C6. For every sequence of pages, every keyword order and every configuration,
  the chunks that \<open>chunk_pages\<close> returns carry the \<open>chunk_id\<close> values 0, 1, 2, \<dots> in the
  order of emission: the values are strictly increasing and no two are equal. The order
  of emission is the order of the pages, then of the sections of a page, then of the
  sub-chunks of a section. The text of every chunk returned is not empty.
\<close>

theorem chunk_pages_ids_texts:
  "map chunk_id (chunk_pages kws pages cs co mn)
     = map int [0 ..< length (chunk_pages kws pages cs co mn)]
   \<and> sorted_wrt (<) (map chunk_id (chunk_pages kws pages cs co mn))
   \<and> distinct (map chunk_id (chunk_pages kws pages cs co mn))
   \<and> (\<forall>c\<in>set (chunk_pages kws pages cs co mn). text c \<noteq> [])
   \<and> map text (chunk_pages kws pages cs co mn)
       = concat (map (\<lambda>t. sub_chunk_text t cs co mn) (section_texts pages))"
proof -
  let ?r = "chunk_pages kws pages cs co mn"
  have i: "map chunk_id ?r = map int [0 ..< length ?r]" by (rule chunk_pages_ids)
  have s: "sorted_wrt (<) (map int [0 ..< length ?r])" by (simp add: sorted_wrt_map)
  have d: "distinct (map int [0 ..< length ?r])" by (simp add: distinct_map)
  show ?thesis
    using i s d chunk_pages_text_nonempty [of _ kws pages cs co mn]
      chunk_pages_texts [of kws pages cs co mn]
    by auto
qed

theorem chunk_pages_ids_texts_witness:
  "map chunk_id (chunk_pages SECTION_KEYWORDS sample_pages 500 100 80) = [0, 1, 2, 3]
   \<and> map text (chunk_pages SECTION_KEYWORDS sample_pages 500 100 80)
       = [''Intro line'',
          ''GENERAL CONDITIONS'' @ [CHR 0x0A] @ ''We exclude wear.'',
          ''3.1. Limits apply'' @ [CHR 0x0A] @ ''body see section 4'',
          ''Exclusions:'' @ [CHR 0x0A] @ ''Wear and tear is excluded.'']"
proof -
  let ?r = "chunk_pages SECTION_KEYWORDS sample_pages 500 100 80"
  have t: "concat (map (\<lambda>t. sub_chunk_text t 500 100 80) (section_texts sample_pages))
       = [''Intro line'',
          ''GENERAL CONDITIONS'' @ [CHR 0x0A] @ ''We exclude wear.'',
          ''3.1. Limits apply'' @ [CHR 0x0A] @ ''body see section 4'',
          ''Exclusions:'' @ [CHR 0x0A] @ ''Wear and tear is excluded.'']"
    by code_simp
  from chunk_pages_ids_texts [of SECTION_KEYWORDS sample_pages 500 100 80]
  have i: "map chunk_id ?r = map int [0 ..< length ?r]"
    and e: "map text ?r = concat (map (\<lambda>t. sub_chunk_text t 500 100 80) (section_texts sample_pages))"
    by blast+
  from e t have m: "map text ?r = [''Intro line'',
          ''GENERAL CONDITIONS'' @ [CHR 0x0A] @ ''We exclude wear.'',
          ''3.1. Limits apply'' @ [CHR 0x0A] @ ''body see section 4'',
          ''Exclusions:'' @ [CHR 0x0A] @ ''Wear and tear is excluded.'']"
    by simp
  then have "length (map text ?r) = 4" by simp
  then have "length ?r = 4" by simp
  with i have "map chunk_id ?r = map int [0 ..< 4]" by simp
  also have "\<dots> = [0, 1, 2, 3]" by (simp add: upt_rec)
  finally show ?thesis using m by blast
qed

text \<open>
  Claim C3, as the code has it. The texts of the chunks that \<open>chunk_pages\<close> returns are,
  section after section, the sub-chunks that \<open>_sub_chunk_text\<close> makes of the text of the
  section, and the text of a section is never blank. For every text, chunk size, overlap
  and minimum:
  \<^item> the floor: every sub-chunk has an estimated token count (the number of its
    characters divided by 4) of at least \<open>min_chunk_size\<close>, unless it is the only
    sub-chunk of its section;
  \<^item> a text that fits in \<open>chunk_size\<close> and is not blank is one chunk, whatever its size;
  \<^item> the remainder of a text that is split: when the loop over the sentences ends, the
    sentences gathered since the last flush are not empty and end with the last sentence
    of the text, every chunk flushed so far reaches the minimum, and the remainder is
    emitted whole, as a chunk of its own when it reaches the minimum or no chunk was
    flushed, and otherwise appended, after a space, to the last chunk flushed. So it is
    never dropped and never stands alone below the minimum behind another chunk;
  \<^item> a chunk below the minimum that is flushed inside the section is not emitted, and
    when \<open>chunk_overlap\<close> is at least \<open>min_chunk_size\<close> the overlap carries all its
    sentences into the chunk that follows: the flush leaves the sentences gathered as
    they are, and the loop goes on as if it had not flushed;
  \<^item> so, when \<open>chunk_overlap\<close> is at least \<open>min_chunk_size\<close>, as in the configuration
    shipped (100 and 80), no fragment is dropped: every sentence of a text that is not
    blank is contained in a sub-chunk emitted.
\<close>

theorem token_floor:
  "map text (chunk_pages kws pages cs co mn)
     = concat (map (\<lambda>t. sub_chunk_text t cs co mn) (section_texts pages))
   \<and> (\<forall>t\<in>set (section_texts pages). strip t \<noteq> [])
   \<and> (\<forall>t. (\<forall>c\<in>set (sub_chunk_text t cs co mn).
              mn \<le> estimate_tokens c \<or> length (sub_chunk_text t cs co mn) = 1)
          \<and> (estimate_tokens t \<le> cs \<and> strip t \<noteq> [] \<longrightarrow> sub_chunk_text t cs co mn = [t])
          \<and> (cs < estimate_tokens t \<longrightarrow>
               (case sub_chunk_loop cs co mn (split_sentences t) [] [] 0 of
                  (chunks, cur) \<Rightarrow>
                    cur \<noteq> [] \<and> last cur = last (split_sentences t)
                    \<and> (\<forall>c\<in>set chunks. mn \<le> estimate_tokens c)
                    \<and> sub_chunk_text t cs co mn =
                        (if mn \<le> estimate_tokens (join '' '' cur) \<or> chunks = []
                         then chunks @ [join '' '' cur]
                         else butlast chunks @ [last chunks @ '' '' @ join '' '' cur])))
          \<and> (mn \<le> co \<and> strip t \<noteq> [] \<longrightarrow>
               (\<forall>s\<in>set (split_sentences t).
                  \<exists>c\<in>set (sub_chunk_text t cs co mn). contains c s)))
   \<and> (\<forall>s ss chunks cur tok.
          cs < tok + estimate_tokens s \<and> cur \<noteq> []
          \<and> estimate_tokens (join '' '' cur) < mn \<and> mn \<le> co \<longrightarrow>
          sub_chunk_loop cs co mn (s # ss) chunks cur tok
            = sub_chunk_loop cs co mn ss chunks (cur @ [s])
                (sum_list (map estimate_tokens cur) + estimate_tokens s))"
proof -
  have a: "map text (chunk_pages kws pages cs co mn)
     = concat (map (\<lambda>t. sub_chunk_text t cs co mn) (section_texts pages))"
    by (rule chunk_pages_texts)
  have b: "\<forall>t\<in>set (section_texts pages). strip t \<noteq> []"
    using section_texts_strip by blast
  have c: "\<forall>c\<in>set (sub_chunk_text t cs co mn).
              mn \<le> estimate_tokens c \<or> length (sub_chunk_text t cs co mn) = 1" for t
    using sub_chunk_text_floor by blast
  have d: "estimate_tokens t \<le> cs \<and> strip t \<noteq> [] \<longrightarrow> sub_chunk_text t cs co mn = [t]" for t
    by (simp add: sub_chunk_text_short)
  have e: "cs < estimate_tokens t \<longrightarrow>
               (case sub_chunk_loop cs co mn (split_sentences t) [] [] 0 of
                  (chunks, cur) \<Rightarrow>
                    cur \<noteq> [] \<and> last cur = last (split_sentences t)
                    \<and> (\<forall>c\<in>set chunks. mn \<le> estimate_tokens c)
                    \<and> sub_chunk_text t cs co mn =
                        (if mn \<le> estimate_tokens (join '' '' cur) \<or> chunks = []
                         then chunks @ [join '' '' cur]
                         else butlast chunks @ [last chunks @ '' '' @ join '' '' cur]))" for t
  proof
    assume g: "cs < estimate_tokens t"
    obtain chunks cur where
      l: "sub_chunk_loop cs co mn (split_sentences t) [] [] 0 = (chunks, cur)"
      by (cases "sub_chunk_loop cs co mn (split_sentences t) [] [] 0")
    have n: "\<not> estimate_tokens t \<le> cs" using g by simp
    have ne: "split_sentences t \<noteq> []"
      by (simp add: split_sentences_def split_sentences_from_nonempty_list)
    from sub_chunk_loop_last [OF ne, of cs co mn "[]" "[]" 0] l
    have cur: "cur \<noteq> []" "last cur = last (split_sentences t)" by simp_all
    have f: "\<forall>x\<in>set chunks. mn \<le> estimate_tokens x"
      using sub_chunk_loop_floor [of "[]" mn cs co "split_sentences t" "[]" 0] l by simp
    have r: "sub_chunk_text t cs co mn =
                (if mn \<le> estimate_tokens (join '' '' cur) \<or> chunks = []
                 then chunks @ [join '' '' cur]
                 else butlast chunks @ [last chunks @ '' '' @ join '' '' cur])"
      using sub_chunk_text_long [OF n l] cur(1) by simp
    show "case sub_chunk_loop cs co mn (split_sentences t) [] [] 0 of
                  (chunks, cur) \<Rightarrow>
                    cur \<noteq> [] \<and> last cur = last (split_sentences t)
                    \<and> (\<forall>c\<in>set chunks. mn \<le> estimate_tokens c)
                    \<and> sub_chunk_text t cs co mn =
                        (if mn \<le> estimate_tokens (join '' '' cur) \<or> chunks = []
                         then chunks @ [join '' '' cur]
                         else butlast chunks @ [last chunks @ '' '' @ join '' '' cur])"
      unfolding l using cur f r by simp
  qed
  have g: "mn \<le> co \<and> strip t \<noteq> [] \<longrightarrow>
               (\<forall>s\<in>set (split_sentences t).
                  \<exists>c\<in>set (sub_chunk_text t cs co mn). contains c s)" for t
    using sub_chunk_text_covers [of mn co t _ cs] by blast
  have h: "cs < tok + estimate_tokens s \<and> cur \<noteq> []
          \<and> estimate_tokens (join '' '' cur) < mn \<and> mn \<le> co \<longrightarrow>
          sub_chunk_loop cs co mn (s # ss) chunks cur tok
            = sub_chunk_loop cs co mn ss chunks (cur @ [s])
                (sum_list (map estimate_tokens cur) + estimate_tokens s)" for s ss chunks cur tok
  proof
    assume p: "cs < tok + estimate_tokens s \<and> cur \<noteq> []
          \<and> estimate_tokens (join '' '' cur) < mn \<and> mn \<le> co"
    then have o: "overlap_loop co (rev cur) 0 [] = cur"
      using overlap_keeps_small_chunk [of cur mn co] by simp
    have f: "cs < tok + estimate_tokens s \<and> cur \<noteq> []" using p by simp
    have "sub_chunk_loop cs co mn (s # ss) chunks cur tok
          = sub_chunk_loop cs co mn ss
             (if mn \<le> estimate_tokens (join '' '' cur) then chunks @ [join '' '' cur] else chunks)
             (overlap_loop co (rev cur) 0 [] @ [s])
             (sum_list (map estimate_tokens (overlap_loop co (rev cur) 0 [])) + estimate_tokens s)"
      by (subst sub_chunk_loop_Cons) (rule if_P [OF f])
    with p o show "sub_chunk_loop cs co mn (s # ss) chunks cur tok
            = sub_chunk_loop cs co mn ss chunks (cur @ [s])
                (sum_list (map estimate_tokens cur) + estimate_tokens s)"
      by simp
  qed
  show ?thesis
    by (intro conjI allI a b c d e g h)
qed

theorem token_floor_witness:
  "map text (chunk_pages SECTION_KEYWORDS [drop_page] 2 2 2)
     = [''Aaaaaaaaaaaa.'', ''Hi. Bbbbbbbbbbbb.'']
   \<and> (2::int) \<le> 2 \<and> strip (page_text drop_page) \<noteq> []
   \<and> ''Hi.'' \<in> set (split_sentences (page_text drop_page))
   \<and> estimate_tokens ''Hi.'' < 2
   \<and> overlap_loop 2 (rev [''Hi.'']) 0 [] = [''Hi.'']
   \<and> contains ''Hi. Bbbbbbbbbbbb.'' ''Hi.''
   \<and> map text (chunk_pages SECTION_KEYWORDS [merge_page] 5 2 2)
     = [''Aaaaaaaaaaaaaaaaaaaaaaa.'', ''Bbbbbbbbbbbbbbbbbbbbbbb. Hi.'']
   \<and> 5 < estimate_tokens (page_text merge_page)
   \<and> sub_chunk_loop 5 2 2 (split_sentences (page_text merge_page)) [] [] 0
     = ([''Aaaaaaaaaaaaaaaaaaaaaaa.'', ''Bbbbbbbbbbbbbbbbbbbbbbb.''], [''Hi.''])
   \<and> sub_chunk_text (page_text merge_page) 5 2 2
     = butlast [''Aaaaaaaaaaaaaaaaaaaaaaa.'', ''Bbbbbbbbbbbbbbbbbbbbbbb.'']
       @ [last [''Aaaaaaaaaaaaaaaaaaaaaaa.'', ''Bbbbbbbbbbbbbbbbbbbbbbb.''] @ '' '' @ ''Hi.'']"
proof -
  have t1: "concat (map (\<lambda>t. sub_chunk_text t 2 2 2) (section_texts [drop_page]))
       = [''Aaaaaaaaaaaa.'', ''Hi. Bbbbbbbbbbbb.'']"
    by code_simp
  have t2: "concat (map (\<lambda>t. sub_chunk_text t 5 2 2) (section_texts [merge_page]))
       = [''Aaaaaaaaaaaaaaaaaaaaaaa.'', ''Bbbbbbbbbbbbbbbbbbbbbbb. Hi.'']"
    by code_simp
  have r: "(2::int) \<le> 2 \<and> strip (page_text drop_page) \<noteq> []
   \<and> ''Hi.'' \<in> set (split_sentences (page_text drop_page))
   \<and> estimate_tokens ''Hi.'' < 2
   \<and> overlap_loop 2 (rev [''Hi.'']) 0 [] = [''Hi.'']
   \<and> contains ''Hi. Bbbbbbbbbbbb.'' ''Hi.''
   \<and> 5 < estimate_tokens (page_text merge_page)
   \<and> sub_chunk_loop 5 2 2 (split_sentences (page_text merge_page)) [] [] 0
     = ([''Aaaaaaaaaaaaaaaaaaaaaaa.'', ''Bbbbbbbbbbbbbbbbbbbbbbb.''], [''Hi.''])
   \<and> sub_chunk_text (page_text merge_page) 5 2 2
     = butlast [''Aaaaaaaaaaaaaaaaaaaaaaa.'', ''Bbbbbbbbbbbbbbbbbbbbbbb.'']
       @ [last [''Aaaaaaaaaaaaaaaaaaaaaaa.'', ''Bbbbbbbbbbbbbbbbbbbbbbb.''] @ '' '' @ ''Hi.'']"
    by code_simp
  from token_floor [of SECTION_KEYWORDS "[drop_page]" 2 2 2]
  have a: "map text (chunk_pages SECTION_KEYWORDS [drop_page] 2 2 2)
     = concat (map (\<lambda>t. sub_chunk_text t 2 2 2) (section_texts [drop_page]))"
    by blast
  from token_floor [of SECTION_KEYWORDS "[merge_page]" 5 2 2]
  have b: "map text (chunk_pages SECTION_KEYWORDS [merge_page] 5 2 2)
     = concat (map (\<lambda>t. sub_chunk_text t 5 2 2) (section_texts [merge_page]))"
    by blast
  from a b t1 t2 r show ?thesis by simp
qed

text \<open>
  The claim as the specification states it fails. With a chunk size of 2 tokens, no
  overlap and a minimum of 2 tokens, the sentence \<open>Hi.\<close> between two sentences of 13
  characters is a fragment below the minimum with a chunk before it; it is neither
  appended to that chunk nor emitted, and no chunk returned contains it.
\<close>

theorem token_floor_counterexample:
  "map text (chunk_pages SECTION_KEYWORDS [drop_page] 2 0 2)
     = [''Aaaaaaaaaaaa.'', ''Bbbbbbbbbbbb.'']
   \<and> split_sentences (page_text drop_page) = [''Aaaaaaaaaaaa.'', ''Hi.'', ''Bbbbbbbbbbbb.'']
   \<and> estimate_tokens ''Hi.'' < 2
   \<and> \<not> contains ''Aaaaaaaaaaaa.'' ''Hi.'' \<and> \<not> contains ''Bbbbbbbbbbbb.'' ''Hi.''"
  by code_simp

section \<open>The answer composer\<close>

text \<open>
  Claim C8. The docstring of \<open>_generate_follow_ups\<close> promises three follow-up
  suggestions, and the claim says that \<open>generate\<close> returns exactly three. The code returns
  the three fixed suggestions when the results are empty, and never more than three.
  It can return fewer: a generic suggestion that shares two keywords with the question
  is skipped, there are six generic suggestions, and the loop ends with them. For the
  question of \<^const>\<open>overlapping_question\<close>, in the prompt as the pipeline writes it, and one
  result from a page without headings, four of the six are skipped and \<open>generate\<close>
  returns two follow-ups.
\<close>

theorem follow_ups_shortfall:
  "llm_follow_ups (generate clean build prompt [])
     = [''What does this policy cover?'', ''What are the general exclusions?'',
        ''How do I make a claim?'']
   \<and> length (llm_follow_ups (generate clean build prompt context_chunks)) \<le> 3
   \<and> llm_follow_ups (generate clean build (sample_prompt overlapping_question)
         [(plain_chunk, 1 / 2)])
     = [''What additional optional covers are available?'',
        ''What are my obligations under this policy?'']"
proof -
  have a: "generate_follow_ups [(plain_chunk, 1 / 2)]
             (lower (extract_question (sample_prompt overlapping_question)))
     = [''What additional optional covers are available?'',
        ''What are my obligations under this policy?'']"
    by code_simp
  have b: "length (llm_follow_ups (generate clean build prompt context_chunks)) \<le> 3"
    by (simp add: generate_def generate_follow_ups_def Let_def)
  show ?thesis using a b by (simp add: generate_def Let_def)
qed

section \<open>The pipeline\<close>

text \<open>
  Claim C10. Let the question, in lower case, stripped of white space and then of the
  characters \<open>?\<close>, \<open>!\<close> and \<open>.\<close> at its end, be one of the fixed greeting, identity,
  thanks or help patterns. On an initialized pipeline \<open>ask\<close> returns the canned reply of
  \<open>_detect_conversational\<close>: it repeats the question, its confidence is 1.0, its
  citations and its sources are empty, and no call of the embedding backend, of the
  search or of the answer backend is made. On a pipeline that is not initialized \<open>ask\<close>
  raises \<open>RuntimeError\<close> before it looks at the question, so retrieval is bypassed there
  too.
\<close>

theorem ask_conversational:
  assumes "normalize_question qn \<in> set GREETING_PATTERNS \<union> set IDENTITY_PATTERNS
             \<union> set THANKS_PATTERNS \<union> set HELP_PATTERNS"
  shows "(is_initialized p \<longrightarrow>
            (\<exists>resp. ask encode index_search llm_generate round4 p qn = Inr (resp, [])
               \<and> detect_conversational p qn = Some resp
               \<and> question resp = qn \<and> confidence resp = 1
               \<and> citations resp = [] \<and> sources resp = []))
       \<and> (\<not> is_initialized p \<longrightarrow>
            ask encode index_search llm_generate round4 p qn
              = Inl (RuntimeError ''Pipeline not initialized. Call initialize() first.''))"
  using assms
  by (auto simp: ask_def detect_conversational_def conversational_def Let_def)

theorem ask_conversational_witness:
  "normalize_question ''Hello!'' = ''hello''
   \<and> is_initialized sample_pipeline
   \<and> ask length_encode (table_search sample_table) sample_llm id sample_pipeline ''Hello!''
       = Inr (conversational ''Hello!'' (greeting_answer 1)
                [''What does this policy cover?'', ''What are the general exclusions?'',
                 ''How do I make a claim?''], [])"
proof -
  have n: "normalize_question ''Hello!'' = ''hello''" by code_simp
  have h: "normalize_question ''Hello!'' \<in> set GREETING_PATTERNS \<union> set IDENTITY_PATTERNS
             \<union> set THANKS_PATTERNS \<union> set HELP_PATTERNS"
    unfolding n by (simp add: GREETING_PATTERNS_def)
  have i: "is_initialized sample_pipeline" by (simp add: sample_pipeline_def)
  have d: "detect_conversational sample_pipeline ''Hello!''
           = Some (conversational ''Hello!'' (greeting_answer 1)
                [''What does this policy cover?'', ''What are the general exclusions?'',
                 ''How do I make a claim?''])"
    by code_simp
  from ask_conversational [OF h, of sample_pipeline length_encode "table_search sample_table"
      sample_llm id] i
  obtain resp where
    "ask length_encode (table_search sample_table) sample_llm id sample_pipeline ''Hello!''
       = Inr (resp, [])"
    "detect_conversational sample_pipeline ''Hello!'' = Some resp"
    by blast
  with d n i show ?thesis by simp
qed

end
